theory Spec2Isabelle
  imports Complex_Main "HOL-Library.AList"
begin

section \<open>Errors\<close>

text \<open>
  The exceptions of the Python run time and of the tensor library that the source can
  raise. \<open>ConfigError\<close> and \<open>WeightFormatError\<close> are the error kinds named by the
  specification; \<^verbatim>\<open>darknet.py\<close> defines neither of them and no definition below
  produces them.
\<close>

datatype error =
    ValueError | KeyError | IndexError | AttributeError | TypeError | ZeroDivisionError
  | RuntimeError
  | ConfigError | WeightFormatError

section \<open>Strings\<close>

text \<open>
  A Python \<^verbatim>\<open>str\<close> is modelled as a \<open>string\<close> whose characters are the code points
  below 256. \<open>isspace\<close> is \<^verbatim>\<open>str.isspace\<close> on one such character.
\<close>

definition isspace :: "char \<Rightarrow> bool" where
  "isspace c \<longleftrightarrow> of_char c \<in> {9, 10, 11, 12, 13, 28, 29, 30, 31, 32, 133, 160 :: nat}"

text \<open>\<^verbatim>\<open>s.strip()\<close>\<close>

definition strip :: "string \<Rightarrow> string" where
  "strip s = rev (dropWhile isspace (rev (dropWhile isspace s)))"

text \<open>\<^verbatim>\<open>s.split(c)\<close> for a separator of one character: never an empty list.\<close>

fun split :: "char \<Rightarrow> string \<Rightarrow> string list" where
  "split c [] = [[]]"
| "split c (x # xs) =
     (if x = c then [] # split c xs
      else (case split c xs of [] \<Rightarrow> [[x]] | w # ws \<Rightarrow> (x # w) # ws))"

section \<open>The configuration parser\<close>

text \<open>
  A block is a Python \<^verbatim>\<open>dict\<close> from strings to strings, kept as an association list in
  insertion order; \<^verbatim>\<open>block[k] = v\<close> is \<open>AList.update\<close>, which overwrites in place.
\<close>

type_synonym block = "(string \<times> string) list"

text \<open>
  One iteration of \<^verbatim>\<open>for line in lines\<close> of \<^verbatim>\<open>parse_cfg\<close>, on the state
  \<open>(block, blocks)\<close>. \<^verbatim>\<open>line[0]\<close> raises IndexError on an empty line;
  \<^verbatim>\<open>key, value = line.split('=')\<close> raises ValueError unless the split has two parts;
  \<^verbatim>\<open>line[1:-1]\<close> is \<open>butlast (tl line)\<close>.
\<close>

definition parse_line :: "string \<Rightarrow> block \<times> block list \<Rightarrow> error + (block \<times> block list)" where
  "parse_line line st =
     (case st of (block, blocks) \<Rightarrow>
        (case line of
           [] \<Rightarrow> Inl IndexError
         | c # _ \<Rightarrow>
             if c = CHR ''['' then
               (let (block', blocks') =
                      (if length block \<noteq> 0 then ([], blocks @ [block]) else (block, blocks))
                in Inr (AList.update ''type'' (strip (butlast (tl line))) block', blocks'))
             else
               (case split CHR ''='' line of
                  [key, value] \<Rightarrow> Inr (AList.update (strip key) (strip value) block, blocks)
                | _ \<Rightarrow> Inl ValueError)))"

fun parse_lines :: "string list \<Rightarrow> block \<times> block list \<Rightarrow> error + (block \<times> block list)" where
  "parse_lines [] st = Inr st"
| "parse_lines (line # lines) st =
     (case parse_line line st of Inl e \<Rightarrow> Inl e | Inr st' \<Rightarrow> parse_lines lines st')"

text \<open>
  The lines the loop sees: the text split at newlines, each line stripped, blank lines
  and lines starting with \<^verbatim>\<open>#\<close> dropped.
\<close>

definition cfg_lines :: "string \<Rightarrow> string list" where
  "cfg_lines cfg =
     filter (\<lambda>l. length l > 0 \<and> hd l \<noteq> CHR ''#'') (map strip (split CHR 0x0A cfg))"

text \<open>
  \<^verbatim>\<open>parse_cfg\<close>, on the text that \<^verbatim>\<open>f.read()\<close> returned. The block in progress is
  appended after the loop whatever it holds.
\<close>

definition parse_cfg :: "string \<Rightarrow> error + block list" where
  "parse_cfg cfg =
     (case parse_lines (cfg_lines cfg) ([], []) of
        Inl e \<Rightarrow> Inl e
      | Inr (block, blocks) \<Rightarrow> Inr (blocks @ [block]))"

text \<open>
  A line at which the loop raises: it does not open a block and does not split at
  \<^verbatim>\<open>=\<close> into exactly two parts.
\<close>

definition bad_line :: "string \<Rightarrow> bool" where
  "bad_line l \<longleftrightarrow> hd l \<noteq> CHR ''['' \<and> count_list l CHR ''='' \<noteq> 1"

section \<open>Python values\<close>

text \<open>Sequencing of two computations, the second skipped when the first raises.\<close>

definition and_then :: "error + 'a \<Rightarrow> ('a \<Rightarrow> error + 'b) \<Rightarrow> error + 'b" where
  "and_then m f = (case m of Inl e \<Rightarrow> Inl e | Inr x \<Rightarrow> f x)"

text \<open>A list comprehension \<^verbatim>\<open>[f(x) for x in xs]\<close> whose body may raise.\<close>

fun map_raise :: "('a \<Rightarrow> error + 'b) \<Rightarrow> 'a list \<Rightarrow> error + 'b list" where
  "map_raise f [] = Inr []"
| "map_raise f (x # xs) =
     and_then (f x) (\<lambda>y. and_then (map_raise f xs) (\<lambda>ys. Inr (y # ys)))"

text \<open>\<^verbatim>\<open>xs[i]\<close> on a list; an index from \<open>-len\<close> to \<open>-1\<close> is taken from the end.\<close>

definition py_nth :: "'a list \<Rightarrow> int \<Rightarrow> error + 'a" where
  "py_nth xs i =
     (if 0 \<le> i \<and> i < int (length xs) then Inr (xs ! nat i)
      else if i < 0 \<and> - int (length xs) \<le> i then Inr (xs ! nat (int (length xs) + i))
      else Inl IndexError)"

text \<open>\<^verbatim>\<open>block[k]\<close> and \<^verbatim>\<open>k in block.keys()\<close> on a dictionary.\<close>

definition getitem :: "block \<Rightarrow> string \<Rightarrow> error + string" where
  "getitem b k = (case map_of b k of None \<Rightarrow> Inl KeyError | Some v \<Rightarrow> Inr v)"

definition has_key :: "block \<Rightarrow> string \<Rightarrow> bool" where
  "has_key b k \<longleftrightarrow> k \<in> set (map fst b)"

text \<open>
  \<^verbatim>\<open>int(s)\<close> on a string: white space around the number is skipped, one sign is
  allowed, then decimal digits, where single underscores may stand between digits;
  anything else raises ValueError. The white space of \<^verbatim>\<open>int\<close> is not that of
  \<^verbatim>\<open>str.strip\<close>: of the code points below 256 it is the ASCII white space (9 to 13
  and 32) and, beyond ASCII, 133 and 160; the separators 28 to 31 are not skipped, and
  \<^verbatim>\<open>int\<close> raises ValueError on them. A number of more than 4300 digits raises
  ValueError as well (the limit that the interpreter sets by default).
\<close>

definition int_space :: "char \<Rightarrow> bool" where
  "int_space c \<longleftrightarrow> of_char c \<in> {9, 10, 11, 12, 13, 32, 133, 160 :: nat}"

definition int_strip :: "string \<Rightarrow> string" where
  "int_strip s = rev (dropWhile int_space (rev (dropWhile int_space s)))"

definition isdigit :: "char \<Rightarrow> bool" where
  "isdigit c \<longleftrightarrow> 48 \<le> (of_char c :: nat) \<and> (of_char c :: nat) \<le> 57"

fun int_body :: "string \<Rightarrow> bool" where
  "int_body [] = True"
| "int_body [c] = isdigit c"
| "int_body (c # d # r) =
     (if c = CHR ''_'' then isdigit d \<and> int_body (d # r) else isdigit c \<and> int_body (d # r))"

definition int_digits :: "string \<Rightarrow> error + int" where
  "int_digits b =
     (if b \<noteq> [] \<and> isdigit (hd b) \<and> int_body b \<and> length (filter isdigit b) \<le> 4300
      then Inr (foldl (\<lambda>a c. 10 * a + (int (of_char c) - 48)) 0 (filter isdigit b))
      else Inl ValueError)"

definition py_int :: "string \<Rightarrow> error + int" where
  "py_int s =
     (case int_strip s of
        [] \<Rightarrow> Inl ValueError
      | c # r \<Rightarrow>
          if c = CHR ''-'' then and_then (int_digits r) (\<lambda>n. Inr (- n))
          else if c = CHR ''+'' then int_digits r
          else int_digits (c # r))"

section \<open>Tensors as values\<close>

text \<open>
  The value of a tensor: its shape and its elements in row-major order. Elements are
  real numbers; the rounding of 32-bit floats is outside the model.
\<close>

record 'a tensor =
  shape :: "nat list"
  data :: "'a list"

definition numel :: "'a tensor \<Rightarrow> nat" where
  "numel t = prod_list (shape t)"

definition full :: "nat list \<Rightarrow> 'a \<Rightarrow> 'a tensor" where
  "full s v = \<lparr>shape = s, data = replicate (prod_list s) v\<rparr>"

section \<open>Layers\<close>

text \<open>
  The layer objects that \<^verbatim>\<open>create_modules\<close> constructs. A convolution and a batch
  normalisation own parameter tensors; the three classes of \<^verbatim>\<open>darknet.py\<close> hold what
  their \<^verbatim>\<open>__init__\<close> stores.
\<close>

datatype layer =
    Conv2d (conv_in_channels: int) (conv_out_channels: int) (kernel_size: int)
      (conv_stride: int) (conv_padding: int) (weight: "real tensor") (bias: "real tensor option")
  | BatchNorm2d (num_features: int) (norm_weight: "real tensor") (norm_bias: "real tensor")
      (running_mean: "real tensor") (running_var: "real tensor")
  | LeakyReLU (negative_slope: real) (inplace: bool)
  | Upsample (scale_factor: int)
  | ShortcutLayer (idx: int)
  | RouteLayer (indices: "int list")
  | DetectionLayer (anchors: "real tensor") (num_classes: int) (num_anchors: nat) (input_dim: int)

text \<open>
  The random initial values of a convolution's parameters are a parameter of the model:
  \<open>init i name k\<close> is element \<open>k\<close> of parameter \<open>name\<close> of the layer at position \<open>i\<close>.
\<close>

type_synonym init = "nat \<Rightarrow> string \<Rightarrow> nat \<Rightarrow> real"

text \<open>
  \<^verbatim>\<open>nn.Conv2d(in_channels, out_channels, kernel_size, stride, padding, bias)\<close>: the
  kernel has shape \<open>[out, in, k, k]\<close>, the bias \<open>[out]\<close>. Of the library's argument
  checks only the one of tensor allocation is modelled: a negative size raises.
\<close>

definition Conv2d_new :: "init \<Rightarrow> nat \<Rightarrow> int \<Rightarrow> int \<Rightarrow> int \<Rightarrow> int \<Rightarrow> int \<Rightarrow> bool \<Rightarrow> error + layer" where
  "Conv2d_new init i inc outc k s p b =
     (if inc < 0 \<or> outc < 0 \<or> k < 0 then Inl RuntimeError
      else
        (let ws = [nat outc, nat inc, nat k, nat k]; bs = [nat outc]
         in Inr (Conv2d inc outc k s p
                   \<lparr>shape = ws, data = map (init i ''weight'') [0..<prod_list ws]\<rparr>
                   (if b then Some \<lparr>shape = bs, data = map (init i ''bias'') [0..<prod_list bs]\<rparr>
                    else None))))"

text \<open>\<^verbatim>\<open>nn.BatchNorm2d(n)\<close>: scale and running variance one, shift and running mean zero.\<close>

definition BatchNorm2d_new :: "int \<Rightarrow> layer" where
  "BatchNorm2d_new n =
     BatchNorm2d n (full [nat n] 1) (full [nat n] 0) (full [nat n] 0) (full [nat n] 1)"

text \<open>
  \<^verbatim>\<open>DetectionLayer(anchors, num_classes, input_dim)\<close>: the anchor pairs become a tensor
  of shape \<open>[len, 2]\<close>, or of shape \<open>[0]\<close> when there is no pair.
\<close>

definition DetectionLayer_new :: "(int \<times> int) list \<Rightarrow> int \<Rightarrow> int \<Rightarrow> layer" where
  "DetectionLayer_new anchs nc width =
     DetectionLayer
       \<lparr>shape = (if anchs = [] then [0] else [length anchs, 2]),
        data = concat (map (\<lambda>(w, h). [real_of_int w, real_of_int h]) anchs)\<rparr>
       nc (length anchs) width"

section \<open>The graph builder\<close>

text \<open>
  The variables of the loop of \<^verbatim>\<open>create_modules\<close>. A module is an
  \<^verbatim>\<open>nn.Sequential\<close>, kept as the list of its layers in the order they were added (the
  names given to \<^verbatim>\<open>add_module\<close> are left out).
\<close>

record build_state =
  in_channel :: int
  out_channel :: int
  out_channels :: "int list"
  module_list :: "layer list list"

text \<open>The branch for \<^verbatim>\<open>convolutional\<close>: the module and the new \<^verbatim>\<open>out_channel\<close>.\<close>

definition build_convolutional :: "init \<Rightarrow> nat \<Rightarrow> block \<Rightarrow> build_state \<Rightarrow> error + (layer list \<times> int)" where
  "build_convolutional init i block st =
     (let bn = has_key block ''batch_normalize''; bias = \<not> bn in
      and_then (and_then (getitem block ''filters'') py_int) (\<lambda>filters.
      and_then (and_then (getitem block ''size'') py_int) (\<lambda>kernel_size.
      and_then (and_then (getitem block ''stride'') py_int) (\<lambda>stride.
      and_then (and_then (getitem block ''pad'') py_int) (\<lambda>pad.
      and_then (getitem block ''activation'') (\<lambda>activation.
      let padding = (if pad \<noteq> 0 then (kernel_size - 1) div 2 else 0) in
      and_then (Conv2d_new init i (in_channel st) filters kernel_size stride padding bias) (\<lambda>conv.
      Inr ([conv]
           @ (if bn then [BatchNorm2d_new filters] else [])
           @ (if activation = ''leaky'' then [LeakyReLU (1 / 10) True] else []),
           filters))))))))"

text \<open>The branch for \<^verbatim>\<open>shortcut\<close>: the index is stored unchecked.\<close>

definition build_shortcut :: "nat \<Rightarrow> block \<Rightarrow> build_state \<Rightarrow> error + (layer list \<times> int)" where
  "build_shortcut i block st =
     and_then (and_then (getitem block ''from'') py_int) (\<lambda>from.
     Inr ([ShortcutLayer (from + int i)], out_channel st))"

definition build_upsample :: "nat \<Rightarrow> block \<Rightarrow> build_state \<Rightarrow> error + (layer list \<times> int)" where
  "build_upsample i block st =
     and_then (and_then (getitem block ''stride'') py_int) (\<lambda>stride.
     Inr ([Upsample stride], out_channel st))"

text \<open>
  The branch for \<^verbatim>\<open>route\<close>. A negative index has \<open>i\<close> added; the channel count is read
  from \<^verbatim>\<open>out_channels\<close> by Python indexing. Indices after the second are ignored.
\<close>

definition build_route :: "nat \<Rightarrow> block \<Rightarrow> build_state \<Rightarrow> error + (layer list \<times> int)" where
  "build_route i block st =
     and_then (getitem block ''layers'') (\<lambda>layers.
     (case split CHR '','' layers of
        [] \<Rightarrow> Inl IndexError
      | s0 # others \<Rightarrow>
          and_then (py_int s0) (\<lambda>first.
          let first_idx = (if first < 0 then int i + first else first) in
          (case others of
             s1 # _ \<Rightarrow>
               and_then (py_int s1) (\<lambda>second.
               let second_idx = (if second < 0 then second + int i else second) in
               and_then (py_nth (out_channels st) first_idx) (\<lambda>c1.
               and_then (py_nth (out_channels st) second_idx) (\<lambda>c2.
               Inr ([RouteLayer [first_idx, second_idx]], c1 + c2))))
           | [] \<Rightarrow>
               and_then (py_nth (out_channels st) first_idx) (\<lambda>c.
               Inr ([RouteLayer [first_idx]], c))))))"

text \<open>The branch for \<^verbatim>\<open>yolo\<close>: the anchor pairs selected by the mask.\<close>

definition build_yolo :: "block \<Rightarrow> nat \<Rightarrow> block \<Rightarrow> build_state \<Rightarrow> error + (layer list \<times> int)" where
  "build_yolo net_info i block st =
     and_then (getitem block ''mask'') (\<lambda>mask.
     and_then (map_raise py_int (split CHR '','' mask)) (\<lambda>masks.
     and_then (getitem block ''anchors'') (\<lambda>anchors_str.
     let anchors = split CHR '','' anchors_str in
     and_then (map_raise (\<lambda>m.
                 and_then (and_then (py_nth anchors (2 * m)) py_int) (\<lambda>w.
                 and_then (and_then (py_nth anchors (2 * m + 1)) py_int) (\<lambda>h.
                 Inr (w, h)))) masks) (\<lambda>anchs.
     and_then (and_then (getitem block ''classes'') py_int) (\<lambda>num_classes.
     and_then (and_then (getitem net_info ''width'') py_int) (\<lambda>input_dim.
     Inr ([DetectionLayer_new anchs num_classes input_dim], out_channel st)))))))"

text \<open>
  The body of the loop up to the appends: the \<^verbatim>\<open>if\<close>/\<^verbatim>\<open>elif\<close> chain on the block
  type. A block of any other type gets an empty module and keeps \<^verbatim>\<open>out_channel\<close>.
\<close>

definition build_block :: "init \<Rightarrow> block \<Rightarrow> nat \<Rightarrow> block \<Rightarrow> build_state \<Rightarrow> error + (layer list \<times> int)" where
  "build_block init net_info i block st =
     and_then (getitem block ''type'') (\<lambda>block_type.
       if block_type = ''convolutional'' then build_convolutional init i block st
       else if block_type = ''shortcut'' then build_shortcut i block st
       else if block_type = ''upsample'' then build_upsample i block st
       else if block_type = ''route'' then build_route i block st
       else if block_type = ''yolo'' then build_yolo net_info i block st
       else Inr ([], out_channel st))"

text \<open>\<^verbatim>\<open>for i, block in enumerate(blocks[1:])\<close>, from position \<open>i\<close> on.\<close>

fun build_loop :: "init \<Rightarrow> block \<Rightarrow> nat \<Rightarrow> block list \<Rightarrow> build_state \<Rightarrow> error + build_state" where
  "build_loop init net_info i [] st = Inr st"
| "build_loop init net_info i (block # rest) st =
     and_then (build_block init net_info i block st) (\<lambda>(module, oc).
       build_loop init net_info (Suc i) rest
         \<lparr>in_channel = oc, out_channel = oc,
          out_channels = out_channels st @ [oc],
          module_list = module_list st @ [module]\<rparr>)"

text \<open>The state of the builder when the loop ends; \<^verbatim>\<open>blocks[0]\<close> raises on no blocks.\<close>

definition build_network :: "init \<Rightarrow> block list \<Rightarrow> error + build_state" where
  "build_network init blocks =
     (case blocks of
        [] \<Rightarrow> Inl IndexError
      | net_info # rest \<Rightarrow>
          build_loop init net_info 0 rest
            \<lparr>in_channel = 3, out_channel = 3, out_channels = [], module_list = []\<rparr>)"

definition create_modules :: "init \<Rightarrow> block list \<Rightarrow> error + (block \<times> layer list list)" where
  "create_modules init blocks =
     and_then (build_network init blocks) (\<lambda>st. Inr (hd blocks, module_list st))"

section \<open>Notions used in the statements about the builder\<close>

text \<open>
  A convolutional block is taken to declare a positive filter count: a configuration
  is read as valid only if this holds of each of its convolutional blocks.
\<close>

definition positive_filters :: "block \<Rightarrow> bool" where
  "positive_filters b \<longleftrightarrow>
     (getitem b ''type'' = Inr ''convolutional'' \<longrightarrow>
        (\<exists>f. and_then (getitem b ''filters'') py_int = Inr f \<and> 0 < f))"

definition positive_records :: "build_state \<Rightarrow> bool" where
  "positive_records st \<longleftrightarrow> 0 < out_channel st \<and> (\<forall>c\<in>set (out_channels st). 0 < c)"

text \<open>
  The indices a route block at position \<open>i\<close> refers to: the first two entries of
  \<^verbatim>\<open>layers\<close>, each parsed and, when negative, increased by \<open>i\<close>.
\<close>

definition resolve :: "nat \<Rightarrow> int \<Rightarrow> int" where
  "resolve i k = (if k < 0 then k + int i else k)"

definition route_indices :: "nat \<Rightarrow> block \<Rightarrow> error + int list" where
  "route_indices i block =
     and_then (getitem block ''layers'') (\<lambda>layers.
       map_raise (\<lambda>s. and_then (py_int s) (\<lambda>k. Inr (resolve i k)))
         (take 2 (split CHR '','' layers)))"

section \<open>The network object\<close>

text \<open>
  The attributes of a \<^verbatim>\<open>Darknet\<close> object: \<^verbatim>\<open>blocks\<close>, \<^verbatim>\<open>net_info\<close>,
  \<^verbatim>\<open>module_list\<close>, and \<^verbatim>\<open>header\<close>, which exists only once weights were loaded.
\<close>

record darknet =
  self_blocks :: "block list"
  self_net_info :: block
  self_module_list :: "layer list list"
  self_header :: "int list option"

text \<open>\<^verbatim>\<open>Darknet.__init__\<close>, on the text of the configuration file.\<close>

definition Darknet_new :: "init \<Rightarrow> string \<Rightarrow> error + darknet" where
  "Darknet_new init cfg =
     and_then (parse_cfg cfg) (\<lambda>blocks.
     and_then (create_modules init blocks) (\<lambda>(net_info, modules).
     Inr \<lparr>self_blocks = blocks, self_net_info = net_info,
          self_module_list = modules, self_header = None\<rparr>))"

section \<open>The weight loader\<close>

text \<open>
  \<^verbatim>\<open>torch.from_numpy\<close> of a one-dimensional array, \<^verbatim>\<open>t.view_as(target)\<close>, which
  raises unless both tensors have the same number of elements, and
  \<^verbatim>\<open>target.copy_(src)\<close> for a source of the target's shape.
\<close>

definition from_numpy :: "'a list \<Rightarrow> 'a tensor" where
  "from_numpy xs = \<lparr>shape = [length xs], data = xs\<rparr>"

definition view_as :: "'a tensor \<Rightarrow> 'a tensor \<Rightarrow> error + 'a tensor" where
  "view_as t target =
     (if numel t = numel target then Inr \<lparr>shape = shape target, data = data t\<rparr>
      else Inl RuntimeError)"

definition copy_inplace :: "'a tensor \<Rightarrow> 'a tensor \<Rightarrow> 'a tensor" where
  "copy_inplace target src = target\<lparr>data := data src\<rparr>"

text \<open>
  \<^verbatim>\<open>torch.from_numpy(weights[ptr: ptr + n]).view_as(target)\<close>: the slice of an array
  is cut off at the end of the array.
\<close>

definition slice_view :: "real list \<Rightarrow> nat \<Rightarrow> nat \<Rightarrow> real tensor \<Rightarrow> error + real tensor" where
  "slice_view weights ptr n target = view_as (from_numpy (take n (drop ptr weights))) target"

text \<open>
  The body of \<^verbatim>\<open>if block_type == 'convolutional'\<close> on one module, from cursor
  \<open>ptr\<close>, in three parts. Each returns the module and the cursor at its end, or the
  error with the module and the cursor as they are when it is raised: parameters are
  overwritten in place.
\<close>

text \<open>
  The branch with batch normalisation, on \<^verbatim>\<open>module[1]\<close>: the four slices are taken
  first, all of length \<^verbatim>\<open>bn.weight.numel()\<close>, and copied afterwards.
\<close>

definition load_batch_norm ::
  "real list \<Rightarrow> layer \<Rightarrow> layer list \<Rightarrow> nat \<Rightarrow> (error \<times> layer list \<times> nat) + (layer list \<times> nat)" where
  "load_batch_norm weights conv rest ptr =
     (case rest of
        [] \<Rightarrow> Inl (IndexError, conv # rest, ptr)
      | bn # rest' \<Rightarrow>
          (case bn of
             BatchNorm2d nf bw bb rm rv \<Rightarrow>
               (let num_weights = numel bw
                in case slice_view weights ptr num_weights bb of
                     Inl e \<Rightarrow> Inl (e, conv # rest, ptr)
                   | Inr bn_bias \<Rightarrow>
                 let ptr = ptr + num_weights
                 in case slice_view weights ptr num_weights bw of
                      Inl e \<Rightarrow> Inl (e, conv # rest, ptr)
                    | Inr bn_weight \<Rightarrow>
                 let ptr = ptr + num_weights
                 in case slice_view weights ptr num_weights rm of
                      Inl e \<Rightarrow> Inl (e, conv # rest, ptr)
                    | Inr bn_running_mean \<Rightarrow>
                 let ptr = ptr + num_weights
                 in case slice_view weights ptr num_weights rv of
                      Inl e \<Rightarrow> Inl (e, conv # rest, ptr)
                    | Inr bn_running_var \<Rightarrow>
                 let ptr = ptr + num_weights
                 in Inr (conv # BatchNorm2d nf (copy_inplace bw bn_weight) (copy_inplace bb bn_bias)
                                  (copy_inplace rm bn_running_mean) (copy_inplace rv bn_running_var)
                              # rest', ptr))
           | _ \<Rightarrow> Inl (AttributeError, conv # rest, ptr)))"

text \<open>The branch without: the bias of \<^verbatim>\<open>module[0]\<close>.\<close>

definition load_bias ::
  "real list \<Rightarrow> layer \<Rightarrow> layer list \<Rightarrow> nat \<Rightarrow> (error \<times> layer list \<times> nat) + (layer list \<times> nat)" where
  "load_bias weights conv rest ptr =
     (case conv of
        Conv2d ic oc k s p w b \<Rightarrow>
          (case b of
             None \<Rightarrow> Inl (AttributeError, conv # rest, ptr)
           | Some cb \<Rightarrow>
               (let num_bias = numel cb
                in case slice_view weights ptr num_bias cb of
                     Inl e \<Rightarrow> Inl (e, conv # rest, ptr)
                   | Inr conv_bias \<Rightarrow>
                       Inr (Conv2d ic oc k s p w (Some (copy_inplace cb conv_bias)) # rest,
                            ptr + num_bias)))
      | _ \<Rightarrow> Inl (AttributeError, conv # rest, ptr))"

text \<open>After either branch: the kernel of \<^verbatim>\<open>module[0]\<close>.\<close>

definition load_kernel ::
  "real list \<Rightarrow> layer list \<Rightarrow> nat \<Rightarrow> (error \<times> layer list \<times> nat) + (layer list \<times> nat)" where
  "load_kernel weights mdl ptr =
     (case mdl of
        [] \<Rightarrow> Inl (IndexError, mdl, ptr)
      | conv # rest \<Rightarrow>
          (case conv of
             Conv2d ic oc k s p w b \<Rightarrow>
               (let num_weights = numel w
                in case slice_view weights ptr num_weights w of
                     Inl e \<Rightarrow> Inl (e, mdl, ptr)
                   | Inr conv_weight \<Rightarrow>
                       Inr (Conv2d ic oc k s p (copy_inplace w conv_weight) b # rest,
                            ptr + num_weights))
           | _ \<Rightarrow> Inl (AttributeError, mdl, ptr)))"

text \<open>The flag says whether the block has the key \<^verbatim>\<open>batch_normalize\<close>.\<close>

definition load_convolutional ::
  "bool \<Rightarrow> real list \<Rightarrow> layer list \<Rightarrow> nat \<Rightarrow> (error \<times> layer list \<times> nat) + (layer list \<times> nat)" where
  "load_convolutional bn weights mdl ptr =
     (case mdl of
        [] \<Rightarrow> Inl (IndexError, mdl, ptr)
      | conv # rest \<Rightarrow>
          (case (if bn then load_batch_norm weights conv rest ptr
                 else load_bias weights conv rest ptr) of
             Inl failure \<Rightarrow> Inl failure
           | Inr (mdl', ptr') \<Rightarrow> load_kernel weights mdl' ptr'))"

text \<open>
  \<^verbatim>\<open>for i in range(len(self.module_list))\<close>, on the modules and the blocks from
  position \<open>i\<close> on (\<^verbatim>\<open>self.blocks[i+1]\<close> is the head of the blocks). Modules of blocks
  of any other type are passed over.
\<close>

fun load_loop ::
  "block list \<Rightarrow> real list \<Rightarrow> layer list list \<Rightarrow> nat
     \<Rightarrow> (error \<times> layer list list \<times> nat) + (layer list list \<times> nat)" where
  "load_loop bs weights [] ptr = Inr ([], ptr)"
| "load_loop [] weights (mdl # modules) ptr = Inl (IndexError, mdl # modules, ptr)"
| "load_loop (block # bs) weights (mdl # modules) ptr =
     (case getitem block ''type'' of
        Inl e \<Rightarrow> Inl (e, mdl # modules, ptr)
      | Inr block_type \<Rightarrow>
          (case (if block_type = ''convolutional''
                 then load_convolutional (has_key block ''batch_normalize'') weights mdl ptr
                 else Inr (mdl, ptr)) of
             Inl (e, mdl', ptr') \<Rightarrow> Inl (e, mdl' # modules, ptr')
           | Inr (mdl', ptr') \<Rightarrow>
               (case load_loop bs weights modules ptr' of
                  Inl (e, modules', ptr'') \<Rightarrow> Inl (e, mdl' # modules', ptr'')
                | Inr (modules', ptr'') \<Rightarrow> Inr (mdl' # modules', ptr''))))"

text \<open>
  \<^verbatim>\<open>load_weights\<close>, on the two arrays read from the file: the header of up to five
  32-bit integers and the floats after it. The result carries the object as the call
  leaves it and the final cursor.
\<close>

definition load_weights ::
  "darknet \<Rightarrow> int list \<Rightarrow> real list \<Rightarrow> (error \<times> darknet \<times> nat) + (darknet \<times> nat)" where
  "load_weights self header weights =
     (let self = self\<lparr>self_header := Some header\<rparr>
      in case load_loop (tl (self_blocks self)) weights (self_module_list self) 0 of
           Inl (e, modules, ptr) \<Rightarrow> Inl (e, self\<lparr>self_module_list := modules\<rparr>, ptr)
         | Inr (modules, ptr) \<Rightarrow> Inr (self\<lparr>self_module_list := modules\<rparr>, ptr))"

section \<open>The layout of the weight file, as specified\<close>

text \<open>
  What \<^verbatim>\<open>create_modules\<close> builds for a convolutional block: a convolution first, its
  kernel of shape \<open>[out, in, k, k]\<close>; with batch normalisation no bias and four
  normalisation parameters of shape \<open>[out]\<close>, without it a bias of shape \<open>[out]\<close>.
\<close>

definition conv_wf :: "bool \<Rightarrow> layer list \<Rightarrow> bool" where
  "conv_wf bn mdl \<longleftrightarrow>
     (case mdl of
        Conv2d ic oc k s p w b # rest \<Rightarrow>
          0 \<le> ic \<and> 0 \<le> oc \<and> 0 \<le> k \<and> shape w = [nat oc, nat ic, nat k, nat k] \<and>
          (if bn then
             b = None \<and>
             (case rest of
                BatchNorm2d nf bw bb rm rv # _ \<Rightarrow>
                  shape bw = [nat oc] \<and> shape bb = [nat oc] \<and>
                  shape rm = [nat oc] \<and> shape rv = [nat oc]
              | _ \<Rightarrow> False)
           else (case b of Some cb \<Rightarrow> shape cb = [nat oc] | None \<Rightarrow> False))
      | _ \<Rightarrow> False)"

definition module_wf :: "block \<Rightarrow> layer list \<Rightarrow> bool" where
  "module_wf b mdl \<longleftrightarrow>
     (case getitem b ''type'' of
        Inl e \<Rightarrow> False
      | Inr ty \<Rightarrow> ty = ''convolutional'' \<longrightarrow> conv_wf (has_key b ''batch_normalize'') mdl)"

text \<open>
  The number of floats a layer takes from the file, in the words of the specification:
  for a convolutional layer four times the filter count with batch normalisation and
  the output channel count without, plus \<open>out \<times> in \<times> k \<times> k\<close> for the kernel; nothing for
  a layer of any other type.
\<close>

definition spec_floats :: "block \<Rightarrow> layer list \<Rightarrow> nat" where
  "spec_floats b mdl =
     (if getitem b ''type'' = Inr ''convolutional'' then
        (case mdl of
           Conv2d ic oc k s p w bi # rest \<Rightarrow>
             (if has_key b ''batch_normalize'' then 4 * nat oc else nat oc)
             + nat oc * nat ic * nat k * nat k
         | _ \<Rightarrow> 0)
      else 0)"

text \<open>\<open>floats ws off n\<close> are the \<open>n\<close> floats of the file from offset \<open>off\<close> on.\<close>

definition floats :: "real list \<Rightarrow> nat \<Rightarrow> nat \<Rightarrow> real list" where
  "floats ws off n = take n (drop off ws)"

text \<open>
  The module of a layer after loading from offset \<open>off\<close>, in the words of the
  specification. With batch normalisation the file holds, in this order, the
  normalisation bias, the normalisation scale, the running mean and the running
  variance, each of filter-count floats, then the kernel; without it the bias of the
  convolution, then the kernel. Each parameter keeps its shape. A layer of any other
  type is left as it is.
\<close>

definition spec_loaded :: "real list \<Rightarrow> nat \<Rightarrow> block \<Rightarrow> layer list \<Rightarrow> layer list" where
  "spec_loaded ws off b mdl =
     (if getitem b ''type'' = Inr ''convolutional'' then
        (case mdl of
           Conv2d ic oc k s p w bi # rest \<Rightarrow>
             (let n = nat oc; kn = nat oc * nat ic * nat k * nat k in
              if has_key b ''batch_normalize'' then
                (case rest of
                   BatchNorm2d nf bw bb rm rv # rest' \<Rightarrow>
                     Conv2d ic oc k s p \<lparr>shape = shape w, data = floats ws (off + 4 * n) kn\<rparr> bi
                     # BatchNorm2d nf
                         \<lparr>shape = shape bw, data = floats ws (off + n) n\<rparr>
                         \<lparr>shape = shape bb, data = floats ws off n\<rparr>
                         \<lparr>shape = shape rm, data = floats ws (off + 2 * n) n\<rparr>
                         \<lparr>shape = shape rv, data = floats ws (off + 3 * n) n\<rparr>
                     # rest'
                 | _ \<Rightarrow> mdl)
              else
                Conv2d ic oc k s p \<lparr>shape = shape w, data = floats ws (off + n) kn\<rparr>
                  (map_option (\<lambda>cb. \<lparr>shape = shape cb, data = floats ws off n\<rparr>) bi)
                # rest)
         | _ \<Rightarrow> mdl)
      else mdl)"

text \<open>All layers in build order, each from the offset where the one before ended.\<close>

fun spec_load_all :: "real list \<Rightarrow> nat \<Rightarrow> block list \<Rightarrow> layer list list \<Rightarrow> layer list list" where
  "spec_load_all ws off (b # bs) (mdl # mdls) =
     spec_loaded ws off b mdl # spec_load_all ws (off + spec_floats b mdl) bs mdls"
| "spec_load_all ws off bs mdls = []"

fun spec_total :: "block list \<Rightarrow> layer list list \<Rightarrow> nat" where
  "spec_total (b # bs) (mdl # mdls) = spec_floats b mdl + spec_total bs mdls"
| "spec_total bs mdls = 0"

text \<open>Every parameter tensor of a module holds as many elements as its shape says.\<close>

definition tensor_full :: "'a tensor \<Rightarrow> bool" where
  "tensor_full t \<longleftrightarrow> length (data t) = prod_list (shape t)"

fun layer_full :: "layer \<Rightarrow> bool" where
  "layer_full (Conv2d ic oc k s p w b) =
     (tensor_full w \<and> (case b of None \<Rightarrow> True | Some cb \<Rightarrow> tensor_full cb))"
| "layer_full (BatchNorm2d nf bw bb rm rv) =
     (tensor_full bw \<and> tensor_full bb \<and> tensor_full rm \<and> tensor_full rv)"
| "layer_full l = True"

definition params_full :: "layer list list \<Rightarrow> bool" where
  "params_full mdls \<longleftrightarrow> list_all (list_all layer_full) mdls"


text \<open>
  The module of the layer at which a file runs out, from offset \<open>off\<close>: the parameters
  whose slices are complete and whose copy was reached hold the floats of the file, the
  others keep their values. With batch normalisation the four normalisation parameters
  are copied only after all four slices were taken, so they are overwritten only if the
  file holds all four; without it the bias is overwritten if the file holds it. The
  kernel, whose slice comes last and is short, keeps its value.
\<close>

definition spec_partial :: "real list \<Rightarrow> nat \<Rightarrow> block \<Rightarrow> layer list \<Rightarrow> layer list" where
  "spec_partial ws off b mdl =
     (case mdl of
        Conv2d ic oc k s p w bi # rest \<Rightarrow>
          (let n = nat oc in
           if has_key b ''batch_normalize'' then
             (case rest of
                BatchNorm2d nf bw bb rm rv # rest' \<Rightarrow>
                  if off + 4 * n \<le> length ws then
                    Conv2d ic oc k s p w bi
                    # BatchNorm2d nf
                        \<lparr>shape = shape bw, data = floats ws (off + n) n\<rparr>
                        \<lparr>shape = shape bb, data = floats ws off n\<rparr>
                        \<lparr>shape = shape rm, data = floats ws (off + 2 * n) n\<rparr>
                        \<lparr>shape = shape rv, data = floats ws (off + 3 * n) n\<rparr>
                    # rest'
                  else mdl
              | _ \<Rightarrow> mdl)
           else if off + n \<le> length ws then
             Conv2d ic oc k s p w (map_option (\<lambda>cb. \<lparr>shape = shape cb, data = floats ws off n\<rparr>) bi)
             # rest
           else mdl)
      | _ \<Rightarrow> mdl)"

text \<open>
  All modules after loading from a file that runs out: the layers whose floats the file
  holds in full are loaded, the first layer for which it does not is as \<open>spec_partial\<close>
  says, and the layers after it are untouched.
\<close>

fun spec_load_short :: "real list \<Rightarrow> nat \<Rightarrow> block list \<Rightarrow> layer list list \<Rightarrow> layer list list" where
  "spec_load_short ws off (b # bs) (mdl # mdls) =
     (if off + spec_floats b mdl \<le> length ws
      then spec_loaded ws off b mdl # spec_load_short ws (off + spec_floats b mdl) bs mdls
      else spec_partial ws off b mdl # mdls)"
| "spec_load_short ws off bs mdls = mdls"
section \<open>The tensor library: storage and views\<close>

text \<open>
  A tensor object is a view of a storage: the address of the storage, a shape and one
  stride for each dimension (every view here starts at the first element of its
  storage). The heap is the list of the storages; the address of a storage is its
  position. Two objects on the same storage see each other's in-place updates.
\<close>

type_synonym heap = "real list list"

record tref =
  stor :: nat
  tshape :: "nat list"
  tstrides :: "nat list"

text \<open>All index tuples of a shape, in row-major order, and the position a view gives one.\<close>

fun all_indices :: "nat list \<Rightarrow> nat list list" where
  "all_indices [] = [[]]"
| "all_indices (n # ns) = concat (map (\<lambda>i. map ((#) i) (all_indices ns)) [0..<n])"

definition offset :: "nat list \<Rightarrow> nat list \<Rightarrow> nat" where
  "offset strides ix = sum_list (map2 (*) ix strides)"

text \<open>
  The strides of a freshly allocated tensor. (For a tensor without elements the library
  chooses other strides; nothing below observes them.)
\<close>

fun row_major :: "nat list \<Rightarrow> nat list" where
  "row_major [] = []"
| "row_major (n # ns) = prod_list ns # row_major ns"

text \<open>The position of an index tuple in row-major order.\<close>

definition ravel :: "nat list \<Rightarrow> nat list \<Rightarrow> nat" where
  "ravel s ix = offset (row_major s) ix"

text \<open>One element of a view, and the value of a view: all its elements in row-major order.\<close>

definition tget :: "heap \<Rightarrow> tref \<Rightarrow> nat list \<Rightarrow> real" where
  "tget h t ix = (h ! stor t) ! offset (tstrides t) ix"

definition contents :: "heap \<Rightarrow> tref \<Rightarrow> real tensor" where
  "contents h t = \<lparr>shape = tshape t, data = map (tget h t) (all_indices (tshape t))\<rparr>"

text \<open>A new tensor with the given value, in a new storage.\<close>

definition alloc :: "heap \<Rightarrow> real tensor \<Rightarrow> tref \<times> heap" where
  "alloc h v =
     (\<lparr>stor = length h, tshape = shape v, tstrides = row_major (shape v)\<rparr>, h @ [data v])"

text \<open>Writing the elements of a view, given in row-major order, into its storage.\<close>

definition scatter :: "heap \<Rightarrow> tref \<Rightarrow> real list \<Rightarrow> heap" where
  "scatter h t vals =
     h[stor t := foldl (\<lambda>s (ix, v). s[offset (tstrides t) ix := v]) (h ! stor t)
                   (zip (all_indices (tshape t)) vals)]"

text \<open>
  An in-place update of the elements of a view whose index satisfies \<open>P\<close>, as an
  assignment to a slice does: \<open>f\<close> gets the index and the old element.
\<close>

definition update_where ::
  "heap \<Rightarrow> tref \<Rightarrow> (nat list \<Rightarrow> bool) \<Rightarrow> (nat list \<Rightarrow> real \<Rightarrow> real) \<Rightarrow> heap" where
  "update_where h t P f =
     scatter h t (map (\<lambda>ix. if P ix then f ix (tget h t ix) else tget h t ix) (all_indices (tshape t)))"

text \<open>
  \<^verbatim>\<open>t.is_contiguous()\<close>: from the last dimension to the first, every dimension of size
  other than one has the stride of row-major order; a tensor without elements is
  contiguous.
\<close>

fun contig_from :: "nat \<Rightarrow> (nat \<times> nat) list \<Rightarrow> bool" where
  "contig_from z [] = True"
| "contig_from z ((n, s) # rest) =
     (if n \<noteq> 1 then s = z \<and> contig_from (z * n) rest else contig_from z rest)"

definition is_contiguous :: "tref \<Rightarrow> bool" where
  "is_contiguous t \<longleftrightarrow>
     prod_list (tshape t) = 0 \<or> contig_from 1 (rev (zip (tshape t) (tstrides t)))"

text \<open>\<^verbatim>\<open>t.contiguous()\<close>: the tensor itself when it is contiguous, a copy otherwise.\<close>

definition contiguous :: "heap \<Rightarrow> tref \<Rightarrow> tref \<times> heap" where
  "contiguous h t = (if is_contiguous t then (t, h) else alloc h (contents h t))"

text \<open>\<^verbatim>\<open>t.size(d)\<close> for \<open>d \<ge> 0\<close>, and \<^verbatim>\<open>t.transpose(1, 2)\<close>.\<close>

definition size_dim :: "tref \<Rightarrow> nat \<Rightarrow> error + nat" where
  "size_dim t d = (if d < length (tshape t) then Inr (tshape t ! d) else Inl IndexError)"

definition swap12 :: "'a list \<Rightarrow> 'a list" where
  "swap12 xs = (case xs of a # b # c # rest \<Rightarrow> a # c # b # rest | _ \<Rightarrow> xs)"

definition transpose12 :: "tref \<Rightarrow> error + tref" where
  "transpose12 t =
     (if length (tshape t) < 3 then Inl IndexError
      else Inr (t\<lparr>tshape := swap12 (tshape t), tstrides := swap12 (tstrides t)\<rparr>))"

text \<open>
  The shape that \<^verbatim>\<open>view\<close> computes from its arguments for a tensor of \<open>n\<close> elements:
  one argument may be \<open>-1\<close> and is then inferred; any other negative argument, two
  inferred ones, a product that does not fit, or an inferred dimension next to a
  product of zero raise.
\<close>

definition infer_size :: "int list \<Rightarrow> nat \<Rightarrow> error + nat list" where
  "infer_size dims n =
     (if (\<exists>d\<in>set dims. d < - 1) \<or> 1 < length (filter (\<lambda>d. d = - 1) dims) then Inl RuntimeError
      else
        (let infer = (- 1 \<in> set dims);
             newsize = prod_list (map nat (filter (\<lambda>d. d \<noteq> - 1) dims))
         in if n = newsize \<or> (infer \<and> 0 < newsize \<and> n mod newsize = 0) then
              (if infer then
                 (if newsize = 0 then Inl RuntimeError
                  else Inr (map (\<lambda>d. if d = - 1 then n div newsize else nat d) dims))
               else Inr (map nat dims))
            else Inl RuntimeError))"

text \<open>
  \<^verbatim>\<open>t.view(dims)\<close>: a view of the same storage with the new shape. The model covers
  the view of a contiguous tensor; for any other tensor it raises, which the library
  does for most but not for all of them.
\<close>

definition view :: "tref \<Rightarrow> int list \<Rightarrow> error + tref" where
  "view t dims =
     and_then (infer_size dims (prod_list (tshape t))) (\<lambda>s.
       if is_contiguous t then Inr \<lparr>stor = stor t, tshape = s, tstrides = row_major s\<rparr>
       else Inl RuntimeError)"

text \<open>
  Broadcasting: a shape can be expanded to a target when, aligned at the last
  dimension, each of its sizes is the target's or one. \<open>expanded v target ix\<close> is the
  element of the expanded tensor at an index of the target.
\<close>

definition expandable :: "nat list \<Rightarrow> nat list \<Rightarrow> bool" where
  "expandable s target \<longleftrightarrow>
     length s \<le> length target \<and>
     list_all2 (\<lambda>n m. n = m \<or> n = 1) s (drop (length target - length s) target)"

definition expanded :: "real tensor \<Rightarrow> nat list \<Rightarrow> real" where
  "expanded v ix =
     data v ! ravel (shape v)
       (map2 (\<lambda>n i. if n = 1 then 0 else i) (shape v) (drop (length ix - length (shape v)) ix))"

text \<open>
  \<^verbatim>\<open>torch.cat(ts, dim=1)\<close> on values. Tensors of shape \<open>[0]\<close> are passed over. The
  others must have at least two dimensions and agree in all but the second; the result
  holds, for each index of the first dimension, the elements of each tensor at that
  index, in the order of the list.
\<close>

definition batch_slice :: "'a tensor \<Rightarrow> nat \<Rightarrow> 'a list" where
  "batch_slice t b = (let m = prod_list (tl (shape t)) in take m (drop (b * m) (data t)))"

definition cat1 :: "'a tensor list \<Rightarrow> error + 'a tensor" where
  "cat1 ts =
     (case filter (\<lambda>t. shape t \<noteq> [0]) ts of
        [] \<Rightarrow> (if ts = [] then Inl RuntimeError else Inr \<lparr>shape = [0], data = []\<rparr>)
      | t # us \<Rightarrow>
          if length (shape t) < 2 then Inl IndexError
          else if \<exists>u\<in>set us. length (shape u) \<noteq> length (shape t)
                    \<or> (shape u)[1 := 0] \<noteq> (shape t)[1 := 0] then Inl RuntimeError
          else Inr \<lparr>shape = (shape t)[1 := sum_list (map (\<lambda>u. shape u ! 1) (t # us))],
                    data = concat (map (\<lambda>b. concat (map (\<lambda>u. batch_slice u b) (t # us)))
                                    [0..<hd (shape t)])\<rparr>)"

section \<open>The forward pass of the layers\<close>

text \<open>\<^verbatim>\<open>ShortcutLayer.forward\<close>: the entry of the history, by Python indexing.\<close>

definition ShortcutLayer_forward :: "int \<Rightarrow> tref list \<Rightarrow> error + tref" where
  "ShortcutLayer_forward k outputs = py_nth outputs k"

text \<open>
  \<^verbatim>\<open>RouteLayer.forward\<close>: the entries of the history at the indices, in the order of
  the indices, concatenated along dimension 1 into a new tensor.
\<close>

definition RouteLayer_forward :: "int list \<Rightarrow> tref list \<Rightarrow> heap \<Rightarrow> error + (tref \<times> heap)" where
  "RouteLayer_forward ks outputs h =
     and_then (map_raise (py_nth outputs) ks) (\<lambda>out.
     and_then (cat1 (map (contents h) out)) (\<lambda>v. Inr (alloc h v)))"

definition sigmoid :: "real \<Rightarrow> real" where
  "sigmoid v = 1 / (1 + exp (- v))"

text \<open>
  \<^verbatim>\<open>np.meshgrid(np.arange(g), np.arange(g), indexing='xy')\<close> as two tensors of shape
  \<open>[g, g]\<close>: the first holds the column of each cell, the second its row.
\<close>

definition meshgrid_xy :: "nat \<Rightarrow> real tensor \<times> real tensor" where
  "meshgrid_xy g =
     (\<lparr>shape = [g, g], data = concat (map (\<lambda>r. map real [0..<g]) [0..<g])\<rparr>,
      \<lparr>shape = [g, g], data = concat (map (\<lambda>r. replicate g (real r)) [0..<g])\<rparr>)"

text \<open>
  \<^verbatim>\<open>DetectionLayer.forward\<close>. \<open>detection\<close> is a view of the storage of \<open>x\<close>, so the
  slice assignments change \<open>x\<close> as well. An index of \<open>detection\<close> is
  \<open>[batch, anchor, channel, row, column]\<close>. \<^verbatim>\<open>detection[:, :, 0, :, :]\<close> and
  \<^verbatim>\<open>detection[:, :, 1, :, :]\<close> raise IndexError when there are fewer than two channels;
  the anchors, of shape \<open>[anchors, 2, 1, 1]\<close> after the two \<^verbatim>\<open>unsqueeze\<close>, must expand
  to the shape of the slice \<^verbatim>\<open>2:4\<close> of the channels. The result is a view of the
  storage of \<open>x\<close> when the transposed tensor is contiguous, of a copy otherwise.
\<close>

definition DetectionLayer_forward :: "layer \<Rightarrow> tref \<Rightarrow> heap \<Rightarrow> error + (tref \<times> heap)" where
  "DetectionLayer_forward self x h =
     and_then (size_dim x 0) (\<lambda>batch_size.
     and_then (size_dim x 2) (\<lambda>grid_size.
     if grid_size = 0 then Inl ZeroDivisionError else
     let stride = input_dim self div int grid_size in
     and_then (view x [int batch_size, int (num_anchors self), num_classes self + 5,
                       int grid_size, int grid_size]) (\<lambda>detection.
     let h = update_where h detection (\<lambda>ix. ix ! 2 < 2) (\<lambda>ix v. sigmoid v);
         h = update_where h detection (\<lambda>ix. 4 \<le> ix ! 2) (\<lambda>ix v. sigmoid v);
         (x_offset, y_offset) = meshgrid_xy grid_size
     in if tshape detection ! 2 < 2 then Inl IndexError else
     let h = update_where h detection (\<lambda>ix. ix ! 2 = 0)
               (\<lambda>ix v. v + expanded x_offset [ix ! 0, ix ! 1, ix ! 3, ix ! 4]);
         h = update_where h detection (\<lambda>ix. ix ! 2 = 1)
               (\<lambda>ix v. v + expanded y_offset [ix ! 0, ix ! 1, ix ! 3, ix ! 4]);
         h = update_where h detection (\<lambda>ix. ix ! 2 < 2) (\<lambda>ix v. v * real_of_int stride);
         anchors = (anchors self)\<lparr>shape := shape (anchors self) @ [1, 1]\<rparr>
     in if \<not> expandable (shape anchors)
               [tshape detection ! 0, tshape detection ! 1, min 2 (tshape detection ! 2 - 2),
                tshape detection ! 3, tshape detection ! 4]
        then Inl RuntimeError else
     let h = update_where h detection (\<lambda>ix. 2 \<le> ix ! 2 \<and> ix ! 2 < 4)
               (\<lambda>ix v. exp v * expanded anchors [ix ! 0, ix ! 1, ix ! 2 - 2, ix ! 3, ix ! 4])
     in and_then (transpose12 detection) (\<lambda>t.
     let (t, h) = contiguous h t in
     and_then (view t [int batch_size, num_classes self + 5, - 1]) (\<lambda>t.
     and_then (transpose12 t) (\<lambda>detection.
     Inr (detection, h)))))))"

section \<open>The network executor\<close>

text \<open>
  \<^verbatim>\<open>x += y\<close> on tensors: \<open>y\<close> must expand to the shape of \<open>x\<close>; the sum is written
  into the storage of \<open>x\<close>. The library refuses two different views of one storage.
\<close>

definition iadd :: "heap \<Rightarrow> tref \<Rightarrow> tref \<Rightarrow> error + heap" where
  "iadd h x y =
     (if stor x = stor y \<and> prod_list (tshape x) \<noteq> 0 \<and> prod_list (tshape y) \<noteq> 0
         \<and> tstrides x \<noteq> tstrides y then Inl RuntimeError
      else if \<not> expandable (tshape y) (tshape x) then Inl RuntimeError
      else Inr (update_where h x (\<lambda>ix. True) (\<lambda>ix v. v + expanded (contents h y) ix)))"

text \<open>
  The variables of \<^verbatim>\<open>Darknet.forward\<close> and the heap. \<open>fs_x\<close>, \<open>fs_outputs\<close> and
  \<open>fs_detection\<close> hold tensor objects, not values.
\<close>

record fstate =
  fs_heap :: heap
  fs_x :: tref
  fs_outputs :: "tref list"
  fs_detection :: tref

text \<open>
  The convolution, normalisation, activation and upsampling of the library are a
  parameter: \<open>lib m v\<close> is the value of \<^verbatim>\<open>module(x)\<close> for a module \<open>m\<close> of such layers on
  an input of value \<open>v\<close>, or the error it raises. The result is a new tensor.
\<close>

type_synonym lib = "layer list \<Rightarrow> real tensor \<Rightarrow> error + real tensor"

text \<open>
  The branches of the loop of \<^verbatim>\<open>Darknet.forward\<close>. The modules of the three
  classes of \<^verbatim>\<open>darknet.py\<close> are applied as \<^verbatim>\<open>create_modules\<close> builds them, a
  sequence of the one layer; on any other module for these block types the model raises
  TypeError.
\<close>

text \<open>\<^verbatim>\<open>x = module(x)\<close> for a convolutional or an upsample block.\<close>

definition step_library :: "lib \<Rightarrow> layer list \<Rightarrow> fstate \<Rightarrow> error + fstate" where
  "step_library lib mdl st =
     and_then (lib mdl (contents (fs_heap st) (fs_x st))) (\<lambda>v.
     let (x, h) = alloc (fs_heap st) v in Inr (st\<lparr>fs_x := x, fs_heap := h\<rparr>))"

text \<open>\<^verbatim>\<open>x += module(outputs)\<close>: the object \<open>x\<close> stays, its storage is updated.\<close>

definition step_shortcut :: "layer list \<Rightarrow> fstate \<Rightarrow> error + fstate" where
  "step_shortcut mdl st =
     (case mdl of
        [ShortcutLayer k] \<Rightarrow>
          and_then (ShortcutLayer_forward k (fs_outputs st)) (\<lambda>y.
          and_then (iadd (fs_heap st) (fs_x st) y) (\<lambda>h. Inr (st\<lparr>fs_heap := h\<rparr>)))
      | _ \<Rightarrow> Inl TypeError)"

text \<open>\<^verbatim>\<open>x = module(outputs)\<close> for a route block.\<close>

definition step_route :: "layer list \<Rightarrow> fstate \<Rightarrow> error + fstate" where
  "step_route mdl st =
     (case mdl of
        [RouteLayer ks] \<Rightarrow>
          and_then (RouteLayer_forward ks (fs_outputs st) (fs_heap st)) (\<lambda>(x, h).
          Inr (st\<lparr>fs_x := x, fs_heap := h\<rparr>))
      | _ \<Rightarrow> Inl TypeError)"

text \<open>\<^verbatim>\<open>x = module(x)\<close> and \<^verbatim>\<open>detection = torch.cat((x, detection), dim=1)\<close>.\<close>

definition step_yolo :: "layer list \<Rightarrow> fstate \<Rightarrow> error + fstate" where
  "step_yolo mdl st =
     (case mdl of
        [DetectionLayer a nc na w] \<Rightarrow>
          and_then (DetectionLayer_forward (DetectionLayer a nc na w) (fs_x st) (fs_heap st))
            (\<lambda>(x, h).
          and_then (cat1 [contents h x, contents h (fs_detection st)]) (\<lambda>v.
          let (detection, h) = alloc h v
          in Inr (st\<lparr>fs_x := x, fs_heap := h, fs_detection := detection\<rparr>)))
      | _ \<Rightarrow> Inl TypeError)"

text \<open>
  The body of the loop for one module and its block: the \<^verbatim>\<open>if\<close>/\<^verbatim>\<open>elif\<close> chain on
  the block type, then \<^verbatim>\<open>outputs.append(x)\<close>. A block of any other type leaves \<open>x\<close>
  as it is.
\<close>

definition forward_step :: "lib \<Rightarrow> block \<Rightarrow> layer list \<Rightarrow> fstate \<Rightarrow> error + fstate" where
  "forward_step lib block mdl st =
     and_then (getitem block ''type'') (\<lambda>block_type.
     and_then
       (if block_type = ''convolutional'' \<or> block_type = ''upsample'' then step_library lib mdl st
        else if block_type = ''shortcut'' then step_shortcut mdl st
        else if block_type = ''route'' then step_route mdl st
        else if block_type = ''yolo'' then step_yolo mdl st
        else Inr st)
       (\<lambda>st. Inr (st\<lparr>fs_outputs := fs_outputs st @ [fs_x st]\<rparr>)))"

text \<open>
  \<^verbatim>\<open>for i, module in enumerate(self.module_list)\<close> with \<^verbatim>\<open>blocks[i]\<close>, on the
  blocks and the modules from position \<open>i\<close> on.
\<close>

fun forward_loop :: "lib \<Rightarrow> block list \<Rightarrow> layer list list \<Rightarrow> fstate \<Rightarrow> error + fstate" where
  "forward_loop lib bs [] st = Inr st"
| "forward_loop lib [] (mdl # mdls) st = Inl IndexError"
| "forward_loop lib (b # bs) (mdl # mdls) st =
     and_then (forward_step lib b mdl st) (forward_loop lib bs mdls)"

text \<open>
  The state in which the loop starts, for an input tensor of value \<open>v\<close>, taken to be
  contiguous: the input in storage 0 and the empty \<^verbatim>\<open>detection\<close> in storage 1.
\<close>

definition forward_init :: "real tensor \<Rightarrow> fstate" where
  "forward_init v =
     (let (x, h) = alloc [] v;
          (detection, h) = alloc h \<lparr>shape = [0], data = []\<rparr>
      in \<lparr>fs_heap = h, fs_x = x, fs_outputs = [], fs_detection = detection\<rparr>)"

text \<open>The state when the loop ends, and \<^verbatim>\<open>Darknet.forward\<close>: the value of \<^verbatim>\<open>detection\<close>.\<close>

definition forward_state :: "lib \<Rightarrow> darknet \<Rightarrow> real tensor \<Rightarrow> error + fstate" where
  "forward_state lib self v =
     forward_loop lib (tl (self_blocks self)) (self_module_list self) (forward_init v)"

definition forward :: "lib \<Rightarrow> darknet \<Rightarrow> real tensor \<Rightarrow> error + real tensor" where
  "forward lib self v =
     and_then (forward_state lib self v) (\<lambda>st. Inr (contents (fs_heap st) (fs_detection st)))"

section \<open>Notions used in the statements about the forward pass\<close>

text \<open>
  A tensor object as the library allocates it: it has its storage to itself, in
  row-major order.
\<close>

definition std :: "heap \<Rightarrow> tref \<Rightarrow> bool" where
  "std h t \<longleftrightarrow>
     stor t < length h \<and> tstrides t = row_major (tshape t) \<and>
     length (h ! stor t) = prod_list (tshape t)"

text \<open>
  The decoded value of the element of anchor \<open>a\<close>, channel \<open>c\<close>, row \<open>r\<close> and column
  \<open>j\<close> with raw value \<open>v\<close>, in the words of the specification: the sigmoid on channels
  0 and 1 and from 4 on, the column added to channel 0 and the row to channel 1, both
  then times the stride, and on channels 2 and 3 the exponential times the width and
  the height of the anchor.
\<close>

definition decoded :: "real tensor \<Rightarrow> int \<Rightarrow> nat \<Rightarrow> nat \<Rightarrow> nat \<Rightarrow> nat \<Rightarrow> real \<Rightarrow> real" where
  "decoded anch stride a c r j v =
     (if c = 0 then (sigmoid v + real j) * real_of_int stride
      else if c = 1 then (sigmoid v + real r) * real_of_int stride
      else if c = 2 then exp v * (data anch ! (2 * a))
      else if c = 3 then exp v * (data anch ! (2 * a + 1))
      else sigmoid v)"

text \<open>
  The heap \<open>h'\<close> is the heap \<open>h\<close> after writes to the storage \<open>a\<close> only and
  after allocations: it is no shorter, and every other storage of \<open>h\<close> is as it was.
\<close>

definition agree :: "nat \<Rightarrow> heap \<Rightarrow> heap \<Rightarrow> bool" where
  "agree a h h' \<longleftrightarrow> length h \<le> length h' \<and> (\<forall>c<length h. c \<noteq> a \<longrightarrow> h' ! c = h ! c)"

text \<open>
  In the state \<open>st\<close> the objects \<open>x\<close> and \<open>detection\<close> have storages of the heap, and
  not the same one.
\<close>

definition separate :: "fstate \<Rightarrow> bool" where
  "separate st \<longleftrightarrow>
     stor (fs_x st) < length (fs_heap st) \<and> stor (fs_detection st) < length (fs_heap st) \<and>
     stor (fs_x st) \<noteq> stor (fs_detection st)"

text \<open>
  The values that the detection layers return in a pass from the state \<open>st\<close>, in the order
  of the layers: for each block of type \<^verbatim>\<open>yolo\<close> the value of the tensor that
  \<^verbatim>\<open>DetectionLayer.forward\<close> returns on the \<open>x\<close> and in the heap of the state in which
  the pass reaches the block.
\<close>

fun yolo_outputs :: "lib \<Rightarrow> block list \<Rightarrow> layer list list \<Rightarrow> fstate \<Rightarrow> real tensor list" where
  "yolo_outputs lib bs [] st = []"
| "yolo_outputs lib [] (mdl # mdls) st = []"
| "yolo_outputs lib (b # bs) (mdl # mdls) st =
     (if getitem b ''type'' = Inr ''yolo'' then
        (case mdl of
           [DetectionLayer a nc na w] \<Rightarrow>
             (case DetectionLayer_forward (DetectionLayer a nc na w) (fs_x st) (fs_heap st) of
                Inl e \<Rightarrow> []
              | Inr (x, h) \<Rightarrow> [contents h x])
         | _ \<Rightarrow> [])
      else [])
     @ (case forward_step lib b mdl st of
          Inl e \<Rightarrow> []
        | Inr st' \<Rightarrow> yolo_outputs lib bs mdls st')"

text \<open>
  The concatenation of the tensors \<open>ts\<close> along dimension 1, in the words of the
  specification: the sizes of dimension 1 add up, and for every index of dimension 0 the
  elements of the tensors follow one another in the order of the list; of no tensor, the
  empty tensor.
\<close>

definition spec_concat :: "real tensor list \<Rightarrow> real tensor" where
  "spec_concat ts =
     (if ts = [] then \<lparr>shape = [0], data = []\<rparr>
      else \<lparr>shape = (shape (hd ts))[1 := sum_list (map (\<lambda>t. shape t ! 1) ts)],
            data = concat (map (\<lambda>b. concat (map (\<lambda>t. batch_slice t b) ts))
                            [0..<hd (shape (hd ts))])\<rparr>)"

text \<open>The same, by the slices of the result.\<close>

definition stacked :: "real tensor list \<Rightarrow> real tensor \<Rightarrow> bool" where
  "stacked ts r \<longleftrightarrow>
     (if ts = [] then r = \<lparr>shape = [0], data = []\<rparr>
      else tensor_full r \<and> 2 \<le> length (shape r) \<and>
           shape r = (shape (hd ts))[1 := sum_list (map (\<lambda>t. shape t ! 1) ts)] \<and>
           (\<forall>b<hd (shape r). batch_slice r b = concat (map (\<lambda>t. batch_slice t b) ts)))"
section \<open>Example configurations\<close>

definition ex_init :: init where
  "ex_init = (\<lambda>i name k. 0)"

definition ex_net :: block where
  "ex_net = [(''type'', ''net''), (''width'', ''416'')]"

definition ex_conv :: block where
  "ex_conv = [(''type'', ''convolutional''), (''filters'', ''2''), (''size'', ''1''),
              (''stride'', ''1''), (''pad'', ''1''), (''activation'', ''leaky'')]"

definition ex_conv_bn :: block where
  "ex_conv_bn = [(''type'', ''convolutional''), (''batch_normalize'', ''1''), (''filters'', ''1''),
                 (''size'', ''1''), (''stride'', ''1''), (''pad'', ''1''), (''activation'', ''linear'')]"

definition ex_route :: "string \<Rightarrow> block" where
  "ex_route layers = [(''type'', ''route''), (''layers'', layers)]"

definition ex_shortcut :: "string \<Rightarrow> block" where
  "ex_shortcut from = [(''type'', ''shortcut''), (''from'', from)]"

text \<open>The state of the builder after \<open>[ex_net, ex_conv, ex_conv_bn]\<close>.\<close>

definition ex_state2 :: build_state where
  "ex_state2 =
     \<lparr>in_channel = 1, out_channel = 1, out_channels = [2, 1],
      module_list =
        [[Conv2d 3 2 1 1 0 \<lparr>shape = [2, 3, 1, 1], data = [0, 0, 0, 0, 0, 0]\<rparr>
            (Some \<lparr>shape = [2], data = [0, 0]\<rparr>),
          LeakyReLU (1 / 10) True],
         [Conv2d 2 1 1 1 0 \<lparr>shape = [1, 2, 1, 1], data = [0, 0]\<rparr> None,
          BatchNorm2d 1 \<lparr>shape = [1], data = [1]\<rparr> \<lparr>shape = [1], data = [0]\<rparr>
            \<lparr>shape = [1], data = [0]\<rparr> \<lparr>shape = [1], data = [1]\<rparr>]]\<rparr>"

text \<open>The network object of \<open>[ex_net, ex_conv, ex_conv_bn]\<close>, and weight files for it.\<close>

definition ex_darknet :: darknet where
  "ex_darknet =
     \<lparr>self_blocks = [ex_net, ex_conv, ex_conv_bn], self_net_info = ex_net,
      self_module_list = module_list ex_state2, self_header = None\<rparr>"

definition ex_weights :: "nat \<Rightarrow> real list" where
  "ex_weights n = map real [1..<Suc n]"

text \<open>
  The state of the builder after \<open>[ex_net, ex_conv, ex_conv_bn, ex_route ''-1, 0'']\<close>, and a
  history of two tensors of two channels and of one channel.
\<close>

definition ex_state3 :: build_state where
  "ex_state3 =
     \<lparr>in_channel = 3, out_channel = 3, out_channels = [2, 1, 3],
      module_list = module_list ex_state2 @ [[RouteLayer [1, 0]]]\<rparr>"

definition ex_heap :: heap where
  "ex_heap = [[1, 2], [3]]"

definition ex_outputs :: "tref list" where
  "ex_outputs =
     [\<lparr>stor = 0, tshape = [1, 2, 1, 1], tstrides = [2, 1, 1, 1]\<rparr>,
      \<lparr>stor = 1, tshape = [1, 1, 1, 1], tstrides = [1, 1, 1, 1]\<rparr>]"

text \<open>
  A stand-in for the layers of the library, which adds one to every element, an input of one
  element, and the states of the forward pass of
  \<open>[ex_net, ex_conv, ex_conv_bn, ex_shortcut ''-2'']\<close> before and after its shortcut.
\<close>

definition ex_lib :: lib where
  "ex_lib = (\<lambda>mdl v. Inr (v\<lparr>data := map (\<lambda>a. a + 1) (data v)\<rparr>))"

definition ex_in :: "real tensor" where
  "ex_in = \<lparr>shape = [1, 1, 1, 1], data = [3]\<rparr>"

definition ex_modules_sc :: "layer list list" where
  "ex_modules_sc = module_list ex_state2 @ [[ShortcutLayer 0]]"

definition ex_before :: fstate where
  "ex_before =
     \<lparr>fs_heap = [[3], [], [4], [5]],
      fs_x = \<lparr>stor = 3, tshape = [1, 1, 1, 1], tstrides = [1, 1, 1, 1]\<rparr>,
      fs_outputs = [\<lparr>stor = 2, tshape = [1, 1, 1, 1], tstrides = [1, 1, 1, 1]\<rparr>,
                    \<lparr>stor = 3, tshape = [1, 1, 1, 1], tstrides = [1, 1, 1, 1]\<rparr>],
      fs_detection = \<lparr>stor = 1, tshape = [0], tstrides = [1]\<rparr>\<rparr>"

definition ex_after :: fstate where
  "ex_after =
     \<lparr>fs_heap = [[3], [], [4], [9]],
      fs_x = \<lparr>stor = 3, tshape = [1, 1, 1, 1], tstrides = [1, 1, 1, 1]\<rparr>,
      fs_outputs = [\<lparr>stor = 2, tshape = [1, 1, 1, 1], tstrides = [1, 1, 1, 1]\<rparr>,
                    \<lparr>stor = 3, tshape = [1, 1, 1, 1], tstrides = [1, 1, 1, 1]\<rparr>,
                    \<lparr>stor = 3, tshape = [1, 1, 1, 1], tstrides = [1, 1, 1, 1]\<rparr>],
      fs_detection = \<lparr>stor = 1, tshape = [0], tstrides = [1]\<rparr>\<rparr>"

text \<open>A convolutional block that declares no filter.\<close>

definition ex_conv_zero :: block where
  "ex_conv_zero = [(''type'', ''convolutional''), (''filters'', ''0''), (''size'', ''1''),
                   (''stride'', ''1''), (''pad'', ''1''), (''activation'', ''leaky'')]"

text \<open>
  The network of \<open>[ex_net, ex_conv, ex_conv_bn]\<close> with every kernel and bias element
  initialised to \<open>-1\<close>, so that a parameter that was never assigned differs from one
  filled with zeros and from the floats of \<open>ex_weights\<close>.
\<close>

definition ex_init_neg :: init where
  "ex_init_neg = (\<lambda>i name k. - 1)"

definition ex_modules_neg :: "layer list list" where
  "ex_modules_neg =
     [[Conv2d 3 2 1 1 0 \<lparr>shape = [2, 3, 1, 1], data = [- 1, - 1, - 1, - 1, - 1, - 1]\<rparr>
         (Some \<lparr>shape = [2], data = [- 1, - 1]\<rparr>),
       LeakyReLU (1 / 10) True],
      [Conv2d 2 1 1 1 0 \<lparr>shape = [1, 2, 1, 1], data = [- 1, - 1]\<rparr> None,
       BatchNorm2d 1 \<lparr>shape = [1], data = [1]\<rparr> \<lparr>shape = [1], data = [0]\<rparr>
         \<lparr>shape = [1], data = [0]\<rparr> \<lparr>shape = [1], data = [1]\<rparr>]]"

definition ex_darknet_neg :: darknet where
  "ex_darknet_neg =
     \<lparr>self_blocks = [ex_net, ex_conv, ex_conv_bn], self_net_info = ex_net,
      self_module_list = ex_modules_neg, self_header = None\<rparr>"

text \<open>
  A network with two detection layers: a convolution of six filters, a detection layer
  of the first anchor, a route back to the convolution, a second convolution and a
  detection layer of the second anchor. Kernels and biases being zero, the library's
  convolutions return the zero tensor, here of one pixel: \<open>ex_lib_zero\<close>.
\<close>

definition ex_conv6 :: block where
  "ex_conv6 = [(''type'', ''convolutional''), (''filters'', ''6''), (''size'', ''1''),
               (''stride'', ''1''), (''pad'', ''1''), (''activation'', ''linear'')]"

definition ex_yolo :: "string \<Rightarrow> block" where
  "ex_yolo m = [(''type'', ''yolo''), (''mask'', m), (''anchors'', ''10,13,16,30''),
                (''classes'', ''1'')]"

definition ex_blocks_yolo :: "block list" where
  "ex_blocks_yolo = [ex_net, ex_conv6, ex_yolo ''0'', ex_route ''-2'', ex_conv6, ex_yolo ''1'']"

definition ex_modules_yolo :: "layer list list" where
  "ex_modules_yolo =
     [[Conv2d 3 6 1 1 0 (full [6, 3, 1, 1] 0) (Some (full [6] 0))],
      [DetectionLayer \<lparr>shape = [1, 2], data = [10, 13]\<rparr> 1 1 416],
      [RouteLayer [0]],
      [Conv2d 6 6 1 1 0 (full [6, 6, 1, 1] 0) (Some (full [6] 0))],
      [DetectionLayer \<lparr>shape = [1, 2], data = [16, 30]\<rparr> 1 1 416]]"

definition ex_darknet_yolo :: darknet where
  "ex_darknet_yolo =
     \<lparr>self_blocks = ex_blocks_yolo, self_net_info = ex_net,
      self_module_list = ex_modules_yolo, self_header = None\<rparr>"

definition ex_lib_zero :: lib where
  "ex_lib_zero = (\<lambda>mdl v. Inr \<lparr>shape = [1, 6, 1, 1], data = [0, 0, 0, 0, 0, 0]\<rparr>)"

definition ex_in_zero :: "real tensor" where
  "ex_in_zero = \<lparr>shape = [1, 3, 1, 1], data = [0, 0, 0]\<rparr>"

text \<open>The values that the two detection layers return on it.\<close>

definition ex_first :: "real tensor" where
  "ex_first = \<lparr>shape = [1, 1, 6], data = [208, 208, 10, 13, 1 / 2, 1 / 2]\<rparr>"

definition ex_second :: "real tensor" where
  "ex_second = \<lparr>shape = [1, 1, 6], data = [208, 208, 16, 30, 1 / 2, 1 / 2]\<rparr>"

text \<open>The state in which the forward pass of the example ends.\<close>

definition ex_final :: fstate where
  "ex_final =
     \<lparr>fs_heap = [[0, 0, 0], [], [208, 208, 10, 13, 1 / 2, 1 / 2],
                 [208, 208, 10, 13, 1 / 2, 1 / 2], [208, 208, 10, 13, 1 / 2, 1 / 2],
                 [208, 208, 16, 30, 1 / 2, 1 / 2],
                 [208, 208, 16, 30, 1 / 2, 1 / 2, 208, 208, 10, 13, 1 / 2, 1 / 2]],
      fs_x = \<lparr>stor = 5, tshape = [1, 1, 6], tstrides = [6, 1, 1]\<rparr>,
      fs_outputs = [\<lparr>stor = 2, tshape = [1, 6, 1, 1], tstrides = [6, 1, 1, 1]\<rparr>,
                    \<lparr>stor = 2, tshape = [1, 1, 6], tstrides = [6, 1, 1]\<rparr>,
                    \<lparr>stor = 4, tshape = [1, 6, 1, 1], tstrides = [6, 1, 1, 1]\<rparr>,
                    \<lparr>stor = 5, tshape = [1, 6, 1, 1], tstrides = [6, 1, 1, 1]\<rparr>,
                    \<lparr>stor = 5, tshape = [1, 1, 6], tstrides = [6, 1, 1]\<rparr>],
      fs_detection = \<lparr>stor = 6, tshape = [1, 2, 6], tstrides = [12, 6, 1]\<rparr>\<rparr>"

section \<open>Properties of the parser\<close>

lemma split_not_Nil: "split c s \<noteq> []"
  by (induction s) (auto split: list.splits)

lemma length_split: "length (split c s) = Suc (count_list s c)"
proof (induction s)
  case Nil
  show ?case by simp
next
  case (Cons x xs)
  then show ?case
    using split_not_Nil [of c xs] by (cases "split c xs") auto
qed

lemma split_two_iff: "(\<exists>k v. split c s = [k, v]) \<longleftrightarrow> count_list s c = 1"
proof -
  have "(\<exists>k v. split c s = [k, v]) \<longleftrightarrow> length (split c s) = 2"
    by (auto simp: length_Suc_conv numeral_2_eq_2)
  then show ?thesis by (simp add: length_split)
qed

lemma parse_line_bad:
  assumes "l \<noteq> []" "bad_line l"
  shows "parse_line l st = Inl ValueError"
proof -
  obtain c cs where l: "l = c # cs" using assms(1) by (cases l) auto
  have "\<not> (\<exists>k v. split CHR ''='' l = [k, v])"
    using assms(2) by (simp add: split_two_iff bad_line_def)
  moreover have "c \<noteq> CHR ''[''" using assms(2) by (simp add: bad_line_def l)
  ultimately show ?thesis
    unfolding parse_line_def by (auto simp: l simp del: split.simps split: prod.splits list.splits)
qed

lemma parse_line_good:
  assumes "l \<noteq> []" "\<not> bad_line l"
  shows "\<exists>st'. parse_line l st = Inr st'"
proof -
  obtain c cs where l: "l = c # cs" using assms(1) by (cases l) auto
  show ?thesis
  proof (cases "c = CHR ''[''")
    case True
    then show ?thesis unfolding parse_line_def l by (auto split: prod.splits)
  next
    case False
    then have "count_list l CHR ''='' = 1" using assms(2) by (simp add: bad_line_def l)
    then obtain k v where "split CHR ''='' l = [k, v]" using split_two_iff by blast
    then show ?thesis using False unfolding parse_line_def
      by (auto simp: l simp del: split.simps split: prod.splits)
  qed
qed

lemma parse_lines_result:
  assumes "\<forall>l\<in>set ls. l \<noteq> []"
  shows "if (\<exists>l\<in>set ls. bad_line l) then parse_lines ls st = Inl ValueError
         else (\<exists>st'. parse_lines ls st = Inr st')"
  using assms
proof (induction ls arbitrary: st)
  case Nil
  show ?case by simp
next
  case (Cons l ls)
  have ne: "l \<noteq> []" using Cons.prems by simp
  show ?case
  proof (cases "bad_line l")
    case True
    then show ?thesis using parse_line_bad [OF ne True] by simp
  next
    case False
    obtain st' where "parse_line l st = Inr st'" using parse_line_good [OF ne False] by blast
    moreover have "\<forall>l\<in>set ls. l \<noteq> []" using Cons.prems by simp
    ultimately show ?thesis using Cons.IH [of st'] False by (auto split: if_splits)
  qed
qed

lemma cfg_lines_nonempty: "\<forall>l\<in>set (cfg_lines cfg). l \<noteq> []"
  by (auto simp: cfg_lines_def)

text \<open>
  C6 (as amended). Parsing fails exactly when one of the lines the loop sees does not
  start with \<^verbatim>\<open>[\<close> and does not hold exactly one \<^verbatim>\<open>=\<close>, and the failure is
  the ValueError of the tuple unpacking, never a ConfigError. A line before the first
  block header is not an error by itself.
\<close>

theorem parse_cfg_fails_iff:
  "parse_cfg cfg = Inl e \<longleftrightarrow>
     e = ValueError \<and>
     (\<exists>l\<in>set (cfg_lines cfg). hd l \<noteq> CHR ''['' \<and> count_list l CHR ''='' \<noteq> 1)"
  using parse_lines_result [OF cfg_lines_nonempty, of cfg "([], [])"]
  by (auto simp: parse_cfg_def bad_line_def split: sum.splits if_splits)

theorem parse_cfg_fails_iff_witness:
  "parse_cfg (''[net]'' @ [CHR 0x0A] @ ''foo'') = Inl ValueError"
  using parse_cfg_fails_iff [of "''[net]'' @ [CHR 0x0A] @ ''foo''" ValueError]
  by (simp add: cfg_lines_def strip_def isspace_def)

text \<open>
  C6 as stated fails: a \<^verbatim>\<open>key=value\<close> line before any block header is accepted and
  stored in a block that has no \<^verbatim>\<open>type\<close> key.
\<close>

theorem parse_cfg_line_before_header:
  "parse_cfg ''a=b'' = Inr [[(''a'', ''b'')]]"
  by (simp add: parse_cfg_def cfg_lines_def strip_def isspace_def parse_line_def)

text \<open>
  C10. For an input whose lines are all blank or comments after stripping, the parser
  returns exactly one block, and that block has no keys.
\<close>

theorem parse_cfg_blank_input:
  assumes "\<forall>l\<in>set (map strip (split CHR 0x0A cfg)). l = [] \<or> hd l = CHR ''#''"
  shows "parse_cfg cfg = Inr [[]]"
proof -
  have "cfg_lines cfg = []"
    using assms by (auto simp: cfg_lines_def filter_empty_conv)
  then show ?thesis by (simp add: parse_cfg_def)
qed

theorem parse_cfg_blank_input_witness:
  "parse_cfg (''# comment'' @ [CHR 0x0A] @ ''  '' @ [CHR 0x0A]) = Inr [[]]"
  using parse_cfg_blank_input [of "''# comment'' @ [CHR 0x0A] @ ''  '' @ [CHR 0x0A]"]
  by (simp add: strip_def isspace_def)

section \<open>Properties of the graph builder\<close>

lemma and_then_Inl [simp]: "and_then (Inl e) f = Inl e"
  by (simp add: and_then_def)

lemma and_then_Inr [simp]: "and_then (Inr x) f = f x"
  by (simp add: and_then_def)

lemma and_then_eq_Inr:
  "and_then m f = Inr y \<longleftrightarrow> (\<exists>x. m = Inr x \<and> f x = Inr y)"
  by (cases m) auto

lemma and_then_eq_Inl:
  "and_then m f = Inl e \<longleftrightarrow> m = Inl e \<or> (\<exists>x. m = Inr x \<and> f x = Inl e)"
  by (cases m) auto

lemma and_then_InrE:
  assumes "and_then m f = Inr y"
  obtains x where "m = Inr x" "f x = Inr y"
  using assms by (cases m) auto

lemma build_convolutional_oc:
  assumes "build_convolutional init i b st = Inr (m, oc)"
  shows "and_then (getitem b ''filters'') py_int = Inr oc"
  using assms unfolding build_convolutional_def Let_def
  by (elim and_then_InrE) simp

lemma build_yolo_oc:
  assumes "build_yolo ni i b st = Inr (m, oc)"
  shows "oc = out_channel st"
  using assms unfolding build_yolo_def Let_def
  by (elim and_then_InrE) simp

lemma py_nth_in_set: "py_nth xs i = Inr x \<Longrightarrow> x \<in> set xs"
  by (auto simp: py_nth_def split: if_splits)

lemma py_nth_range:
  "py_nth xs i = (if - int (length xs) \<le> i \<and> i < int (length xs)
                  then Inr (xs ! nat (if i < 0 then int (length xs) + i else i))
                  else Inl IndexError)"
  by (auto simp: py_nth_def)

lemma build_route_Inr:
  assumes "build_route i b st = Inr (m, oc)"
  shows "(\<exists>a. m = [RouteLayer [a]] \<and> py_nth (out_channels st) a = Inr oc) \<or>
         (\<exists>a a' c1 c2. m = [RouteLayer [a, a']] \<and> py_nth (out_channels st) a = Inr c1 \<and>
            py_nth (out_channels st) a' = Inr c2 \<and> oc = c1 + c2)"
proof -
  from assms obtain layers where l: "getitem b ''layers'' = Inr layers"
    by (auto simp: build_route_def and_then_eq_Inr)
  show ?thesis
  proof (cases "split CHR '','' layers")
    case Nil
    with assms l show ?thesis by (simp add: build_route_def)
  next
    case (Cons s0 others)
    with assms l obtain k where k: "py_int s0 = Inr k"
      by (auto simp: build_route_def and_then_eq_Inr)
    show ?thesis
    proof (cases others)
      case Nil
      with assms l Cons k show ?thesis
        by (auto simp: build_route_def Let_def and_then_eq_Inr)
    next
      case (Cons s1 others')
      with assms l \<open>split CHR '','' layers = s0 # others\<close> k show ?thesis
        by (auto simp: build_route_def Let_def and_then_eq_Inr)
    qed
  qed
qed

lemma build_loop_append:
  "build_loop init ni i (pre @ rest) st =
     and_then (build_loop init ni i pre st) (\<lambda>st'. build_loop init ni (i + length pre) rest st')"
proof (induction pre arbitrary: i st)
  case Nil
  show ?case by simp
next
  case (Cons b pre)
  show ?case
  proof (cases "build_block init ni i b st")
    case (Inl e)
    then show ?thesis by simp
  next
    case (Inr r)
    then show ?thesis by (cases r) (simp add: Cons.IH)
  qed
qed

lemma build_loop_length:
  "build_loop init ni i bs st = Inr st' \<Longrightarrow>
     length (out_channels st') = length (out_channels st) + length bs"
proof (induction bs arbitrary: i st)
  case Nil
  then show ?case by simp
next
  case (Cons b bs)
  from Cons.prems obtain m oc where
    step: "build_block init ni i b st = Inr (m, oc)" and
    rest: "build_loop init ni (Suc i) bs
             \<lparr>in_channel = oc, out_channel = oc, out_channels = out_channels st @ [oc],
              module_list = module_list st @ [m]\<rparr> = Inr st'"
    by (auto simp: and_then_eq_Inr)
  from Cons.IH [OF rest] show ?case by simp
qed

lemma build_block_type:
  assumes "getitem b ''type'' = Inr ty"
  shows "ty = ''convolutional'' \<Longrightarrow> build_block init ni i b st = build_convolutional init i b st"
    and "ty = ''shortcut'' \<Longrightarrow> build_block init ni i b st = build_shortcut i b st"
    and "ty = ''upsample'' \<Longrightarrow> build_block init ni i b st = build_upsample i b st"
    and "ty = ''route'' \<Longrightarrow> build_block init ni i b st = build_route i b st"
    and "ty = ''yolo'' \<Longrightarrow> build_block init ni i b st = build_yolo ni i b st"
    and "ty \<noteq> ''convolutional'' \<Longrightarrow> ty \<noteq> ''shortcut'' \<Longrightarrow> ty \<noteq> ''upsample'' \<Longrightarrow>
         ty \<noteq> ''route'' \<Longrightarrow> ty \<noteq> ''yolo'' \<Longrightarrow>
           build_block init ni i b st = Inr ([], out_channel st)"
  using assms by (simp_all add: build_block_def)

lemma build_block_type_ex:
  assumes "build_block init ni i b st = Inr r"
  obtains ty where "getitem b ''type'' = Inr ty"
  using assms unfolding build_block_def by (elim and_then_InrE)

lemma build_shortcut_oc:
  assumes "build_shortcut i b st = Inr (m, oc)"
  shows "oc = out_channel st"
  using assms unfolding build_shortcut_def by (elim and_then_InrE) simp

lemma build_upsample_oc:
  assumes "build_upsample i b st = Inr (m, oc)"
  shows "oc = out_channel st"
  using assms unfolding build_upsample_def by (elim and_then_InrE) simp

lemma build_block_positive:
  assumes "build_block init ni i b st = Inr (m, oc)" "positive_records st" "positive_filters b"
  shows "0 < oc"
proof -
  from assms(1) obtain ty where ty: "getitem b ''type'' = Inr ty"
    by (rule build_block_type_ex)
  note bt = build_block_type [OF ty, of init ni i st]
  consider (conv) "ty = ''convolutional''" | (sc) "ty = ''shortcut''" | (up) "ty = ''upsample''"
    | (route) "ty = ''route''" | (yolo) "ty = ''yolo''"
    | (other) "ty \<noteq> ''convolutional''" "ty \<noteq> ''shortcut''" "ty \<noteq> ''upsample''"
        "ty \<noteq> ''route''" "ty \<noteq> ''yolo''"
    by argo
  then show ?thesis
  proof cases
    case conv
    have "build_convolutional init i b st = Inr (m, oc)"
      using assms(1) bt(1) [OF conv] by simp
    from build_convolutional_oc [OF this] assms(3) ty conv show ?thesis
      by (simp add: positive_filters_def)
  next
    case sc
    have "build_shortcut i b st = Inr (m, oc)"
      using assms(1) bt(2) [OF sc] by simp
    from build_shortcut_oc [OF this] assms(2) show ?thesis
      by (simp add: positive_records_def)
  next
    case up
    have "build_upsample i b st = Inr (m, oc)"
      using assms(1) bt(3) [OF up] by simp
    from build_upsample_oc [OF this] assms(2) show ?thesis
      by (simp add: positive_records_def)
  next
    case route
    have "build_route i b st = Inr (m, oc)"
      using assms(1) bt(4) [OF route] by simp
    from build_route_Inr [OF this] show ?thesis using assms(2)
      by (auto simp: positive_records_def dest!: py_nth_in_set intro: add_pos_pos)
  next
    case yolo
    have "build_yolo ni i b st = Inr (m, oc)"
      using assms(1) bt(5) [OF yolo] by simp
    from build_yolo_oc [OF this] assms(2) show ?thesis
      by (simp add: positive_records_def)
  next
    case other
    have "oc = out_channel st"
      using assms(1) bt(6) [OF other] by simp
    then show ?thesis using assms(2) by (simp add: positive_records_def)
  qed
qed

lemma build_loop_positive:
  "build_loop init ni i bs st = Inr st' \<Longrightarrow> positive_records st \<Longrightarrow>
     \<forall>b\<in>set bs. positive_filters b \<Longrightarrow> positive_records st'"
proof (induction bs arbitrary: i st)
  case Nil
  then show ?case by simp
next
  case (Cons b bs)
  from Cons.prems(1) obtain m oc where
    step: "build_block init ni i b st = Inr (m, oc)" and
    rest: "build_loop init ni (Suc i) bs
             \<lparr>in_channel = oc, out_channel = oc, out_channels = out_channels st @ [oc],
              module_list = module_list st @ [m]\<rparr> = Inr st'"
    by (auto simp: and_then_eq_Inr)
  have "0 < oc" using build_block_positive [OF step Cons.prems(2)] Cons.prems(3) by simp
  then have "positive_records \<lparr>in_channel = oc, out_channel = oc, out_channels = out_channels st @ [oc],
              module_list = module_list st @ [m]\<rparr>"
    using Cons.prems(2) by (auto simp: positive_records_def)
  from Cons.IH [OF rest this] Cons.prems(3) show ?case by simp
qed

lemma build_loop_prefix:
  "build_loop init ni i bs st = Inr st' \<Longrightarrow> \<exists>others. out_channels st' = out_channels st @ others"
proof (induction bs arbitrary: i st)
  case Nil
  then show ?case by simp
next
  case (Cons b bs)
  from Cons.prems obtain m oc where
    rest: "build_loop init ni (Suc i) bs
             \<lparr>in_channel = oc, out_channel = oc, out_channels = out_channels st @ [oc],
              module_list = module_list st @ [m]\<rparr> = Inr st'"
    by (auto simp: and_then_eq_Inr)
  from Cons.IH [OF rest] show ?case by auto
qed

lemma build_loop_conv_record:
  "build_loop init ni i bs st = Inr st' \<Longrightarrow> k < length bs \<Longrightarrow>
   getitem (bs ! k) ''type'' = Inr ''convolutional'' \<Longrightarrow>
   and_then (getitem (bs ! k) ''filters'') py_int =
     Inr (out_channels st' ! (length (out_channels st) + k))"
proof (induction bs arbitrary: i st k)
  case Nil
  then show ?case by simp
next
  case (Cons b bs)
  from Cons.prems(1) obtain m oc where
    step: "build_block init ni i b st = Inr (m, oc)" and
    rest: "build_loop init ni (Suc i) bs
             \<lparr>in_channel = oc, out_channel = oc, out_channels = out_channels st @ [oc],
              module_list = module_list st @ [m]\<rparr> = Inr st'"
    by (auto simp: and_then_eq_Inr)
  show ?case
  proof (cases k)
    case 0
    with Cons.prems(3) have ty: "getitem b ''type'' = Inr ''convolutional''" by simp
    from step build_block_type(1) [OF ty refl]
    have "build_convolutional init i b st = Inr (m, oc)" by simp
    from build_convolutional_oc [OF this]
    have f: "and_then (getitem b ''filters'') py_int = Inr oc" .
    from build_loop_prefix [OF rest] obtain others where
      "out_channels st' = (out_channels st @ [oc]) @ others" by auto
    then have "out_channels st' ! length (out_channels st) = oc" by simp
    with f 0 show ?thesis by simp
  next
    case (Suc j)
    with Cons.prems have "j < length bs" "getitem (bs ! j) ''type'' = Inr ''convolutional''"
      by simp_all
    from Cons.IH [OF rest this] Suc show ?thesis by simp
  qed
qed

lemma build_block_nonneg:
  assumes "build_block init ni i b st = Inr (m, oc)" "0 \<le> out_channel st"
    "\<forall>c\<in>set (out_channels st). 0 \<le> c"
  shows "0 \<le> oc"
proof -
  from assms(1) obtain ty where ty: "getitem b ''type'' = Inr ty"
    by (rule build_block_type_ex)
  note bt = build_block_type [OF ty, of init ni i st]
  consider (conv) "ty = ''convolutional''" | (sc) "ty = ''shortcut''" | (up) "ty = ''upsample''"
    | (route) "ty = ''route''" | (yolo) "ty = ''yolo''"
    | (other) "ty \<noteq> ''convolutional''" "ty \<noteq> ''shortcut''" "ty \<noteq> ''upsample''"
        "ty \<noteq> ''route''" "ty \<noteq> ''yolo''"
    by argo
  then show ?thesis
  proof cases
    case conv
    have "build_convolutional init i b st = Inr (m, oc)"
      using assms(1) bt(1) [OF conv] by simp
    then show ?thesis unfolding build_convolutional_def Let_def
      by (elim and_then_InrE) (auto simp: Conv2d_new_def split: if_splits)
  next
    case sc
    have "build_shortcut i b st = Inr (m, oc)"
      using assms(1) bt(2) [OF sc] by simp
    from build_shortcut_oc [OF this] assms(2) show ?thesis by simp
  next
    case up
    have "build_upsample i b st = Inr (m, oc)"
      using assms(1) bt(3) [OF up] by simp
    from build_upsample_oc [OF this] assms(2) show ?thesis by simp
  next
    case route
    have "build_route i b st = Inr (m, oc)"
      using assms(1) bt(4) [OF route] by simp
    from build_route_Inr [OF this] show ?thesis using assms(3)
      by (auto dest!: py_nth_in_set intro: add_nonneg_nonneg)
  next
    case yolo
    have "build_yolo ni i b st = Inr (m, oc)"
      using assms(1) bt(5) [OF yolo] by simp
    from build_yolo_oc [OF this] assms(2) show ?thesis by simp
  next
    case other
    have "oc = out_channel st"
      using assms(1) bt(6) [OF other] by simp
    then show ?thesis using assms(2) by simp
  qed
qed

lemma build_loop_nonneg:
  "build_loop init ni i bs st = Inr st' \<Longrightarrow> 0 \<le> out_channel st \<Longrightarrow>
   \<forall>c\<in>set (out_channels st). 0 \<le> c \<Longrightarrow> \<forall>c\<in>set (out_channels st'). 0 \<le> c"
proof (induction bs arbitrary: i st)
  case Nil
  then show ?case by simp
next
  case (Cons b bs)
  from Cons.prems(1) obtain m oc where
    step: "build_block init ni i b st = Inr (m, oc)" and
    rest: "build_loop init ni (Suc i) bs
             \<lparr>in_channel = oc, out_channel = oc, out_channels = out_channels st @ [oc],
              module_list = module_list st @ [m]\<rparr> = Inr st'"
    by (auto simp: and_then_eq_Inr)
  from build_block_nonneg [OF step Cons.prems(2,3)] have "0 \<le> oc" .
  with Cons.IH [OF rest] Cons.prems(3) show ?case by simp
qed

text \<open>
  C8 (as amended). When a configuration builds, the builder has recorded one output
  channel count for each block after the first, and no record is negative. The record of
  a convolutional block is the value of its \<^verbatim>\<open>filters\<close> entry, which the builder does not
  check; so every record is positive exactly when each convolutional block declares a
  positive filter count.
\<close>

theorem build_records:
  assumes "build_network init blocks = Inr st"
  shows "length (out_channels st) = length (tl blocks) \<and>
         (\<forall>c\<in>set (out_channels st). 0 \<le> c) \<and>
         (\<forall>k<length (tl blocks).
            getitem (tl blocks ! k) ''type'' = Inr ''convolutional'' \<longrightarrow>
            and_then (getitem (tl blocks ! k) ''filters'') py_int = Inr (out_channels st ! k)) \<and>
         ((\<forall>c\<in>set (out_channels st). 0 < c) \<longleftrightarrow> (\<forall>b\<in>set (tl blocks). positive_filters b))"
proof -
  from assms(1) obtain ni rest where blocks: "blocks = ni # rest"
    by (cases blocks) (auto simp: build_network_def)
  let ?st0 = "\<lparr>in_channel = 3, out_channel = 3, out_channels = [], module_list = []\<rparr>"
  have loop: "build_loop init ni 0 rest ?st0 = Inr st"
    using assms(1) by (simp add: build_network_def blocks)
  have len: "length (out_channels st) = length rest"
    using build_loop_length [OF loop] by simp
  have nn: "\<forall>c\<in>set (out_channels st). 0 \<le> c"
    using build_loop_nonneg [OF loop] by simp
  have rec: "and_then (getitem (rest ! k) ''filters'') py_int = Inr (out_channels st ! k)"
    if "k < length rest" "getitem (rest ! k) ''type'' = Inr ''convolutional''" for k
    using build_loop_conv_record [OF loop that] by simp
  have pos: "\<forall>c\<in>set (out_channels st). 0 < c" if "\<forall>b\<in>set rest. positive_filters b"
  proof -
    have "positive_records ?st0" by (simp add: positive_records_def)
    from build_loop_positive [OF loop this] that show ?thesis
      by (simp add: positive_records_def)
  qed
  have fil: "\<forall>b\<in>set rest. positive_filters b" if p: "\<forall>c\<in>set (out_channels st). 0 < c"
  proof
    fix b assume "b \<in> set rest"
    then obtain k where k: "k < length rest" "rest ! k = b" by (auto simp: in_set_conv_nth)
    show "positive_filters b"
      unfolding positive_filters_def
    proof
      assume "getitem b ''type'' = Inr ''convolutional''"
      with rec [OF k(1)] k(2)
      have f: "and_then (getitem b ''filters'') py_int = Inr (out_channels st ! k)" by simp
      from k(1) len p have "0 < out_channels st ! k" by simp
      with f show "\<exists>f. and_then (getitem b ''filters'') py_int = Inr f \<and> 0 < f" by blast
    qed
  qed
  from len nn rec pos fil show ?thesis unfolding blocks list.sel by blast
qed

lemma build_route_indices:
  "build_route i b st =
     and_then (route_indices i b) (\<lambda>idxs.
     and_then (map_raise (py_nth (out_channels st)) idxs) (\<lambda>cs.
     Inr ([RouteLayer idxs], sum_list cs)))"
proof (cases "getitem b ''layers''")
  case (Inl e)
  then show ?thesis by (simp add: build_route_def route_indices_def)
next
  case (Inr layers)
  show ?thesis
  proof (cases "split CHR '','' layers")
    case Nil
    then show ?thesis using split_not_Nil [of "CHR '',''" layers] by simp
  next
    case (Cons s0 others)
    note s0 = this
    show ?thesis
    proof (cases "py_int s0")
      case (Inl e)
      then show ?thesis using Inr s0 by (simp add: build_route_def route_indices_def)
    next
      case k: (Inr k)
      show ?thesis
      proof (cases others)
        case Nil
        show ?thesis
          using Inr s0 k Nil
          by (cases "py_nth (out_channels st) (resolve i k)")
             (auto simp: build_route_def route_indices_def Let_def resolve_def add.commute)
      next
        case (Cons s1 others')
        show ?thesis
        proof (cases "py_int s1")
          case (Inl e)
          then show ?thesis using Inr s0 k Cons
            by (simp add: build_route_def route_indices_def Let_def)
        next
          case k': (Inr k')
          show ?thesis
            using Inr s0 k Cons k'
            by (cases "py_nth (out_channels st) (resolve i k)";
                cases "py_nth (out_channels st) (resolve i k')")
               (auto simp: build_route_def route_indices_def Let_def resolve_def add.commute)
        qed
      qed
    qed
  qed
qed

lemma map_raise_py_nth:
  "map_raise (py_nth xs) idxs =
     (if \<forall>a\<in>set idxs. - int (length xs) \<le> a \<and> a < int (length xs)
      then Inr (map (\<lambda>a. xs ! nat (if a < 0 then int (length xs) + a else a)) idxs)
      else Inl IndexError)"
  by (induction idxs) (auto simp: py_nth_range)

lemma build_network_Cons:
  "build_network init (ni # bs) =
     build_loop init ni 0 bs \<lparr>in_channel = 3, out_channel = 3, out_channels = [], module_list = []\<rparr>"
  by (simp add: build_network_def)

lemma build_network_snoc:
  assumes "build_network init (ni # pre) = Inr st"
  shows "build_network init (ni # pre @ b # post) =
           and_then (build_block init ni (length pre) b st) (\<lambda>(m, oc).
             build_loop init ni (Suc (length pre)) post
               \<lparr>in_channel = oc, out_channel = oc, out_channels = out_channels st @ [oc],
                module_list = module_list st @ [m]\<rparr>)"
  using assms by (simp add: build_network_Cons build_loop_append)

lemma build_network_length:
  assumes "build_network init (ni # pre) = Inr st"
  shows "length (out_channels st) = length pre"
  using build_loop_length [of init ni 0 pre _ st] assms by (simp add: build_network_Cons)


lemma build_ex_state2: "build_network ex_init [ex_net, ex_conv, ex_conv_bn] = Inr ex_state2"
  by code_simp


theorem build_records_witness:
  "length (out_channels ex_state2) = 2 \<and>
   0 < out_channels ex_state2 ! 0 \<and> 0 < out_channels ex_state2 ! 1 \<and>
   Inr 2 = (Inr (out_channels ex_state2 ! 0) :: error + int)"
proof -
  have f1: "and_then (getitem ex_conv ''filters'') py_int = Inr 2" by code_simp
  have f2: "and_then (getitem ex_conv_bn ''filters'') py_int = Inr 1" by code_simp
  have t1: "getitem ex_conv ''type'' = Inr ''convolutional''" by code_simp
  have p: "\<forall>b\<in>set (tl [ex_net, ex_conv, ex_conv_bn]). positive_filters b"
    using f1 f2 by (simp add: positive_filters_def)
  note r = build_records [OF build_ex_state2]
  from r have len: "length (out_channels ex_state2) = 2" by simp
  from r p have pos: "\<forall>c\<in>set (out_channels ex_state2). 0 < c" by blast
  from r have "0 < length (tl [ex_net, ex_conv, ex_conv_bn]) \<longrightarrow>
      getitem (tl [ex_net, ex_conv, ex_conv_bn] ! 0) ''type'' = Inr ''convolutional'' \<longrightarrow>
      and_then (getitem (tl [ex_net, ex_conv, ex_conv_bn] ! 0) ''filters'') py_int =
        Inr (out_channels ex_state2 ! 0)"
    by blast
  with t1 f1 have rec: "Inr 2 = (Inr (out_channels ex_state2 ! 0) :: error + int)" by simp
  from len pos have "0 < out_channels ex_state2 ! 0" "0 < out_channels ex_state2 ! 1"
    by simp_all
  with len rec show ?thesis by blast
qed

text \<open>
  C8 as stated fails: a configuration whose convolutional block declares
  \<^verbatim>\<open>filters=0\<close> builds, and the count recorded for the block is 0.
\<close>

theorem build_records_zero:
  "build_network ex_init [ex_net, ex_conv_zero] =
     Inr \<lparr>in_channel = 0, out_channel = 0, out_channels = [0],
          module_list = [[Conv2d 3 0 1 1 0 \<lparr>shape = [0, 3, 1, 1], data = []\<rparr>
                            (Some \<lparr>shape = [0], data = []\<rparr>),
                          LeakyReLU (1 / 10) True]]\<rparr>"
  by code_simp

text \<open>
  C4 (as amended). Let the blocks before build position \<open>i\<close> build. A route block at
  position \<open>i\<close> with a resolved index outside \<open>[-i, i)\<close> makes the build fail with
  IndexError; with all resolved indices inside \<open>[-i, i)\<close> it builds, and the count
  recorded for it is the sum of the recorded counts at these indices, a negative index
  \<open>a\<close> reading the record at \<open>i + a\<close>, that is, counting from the end of the records.
  A shortcut block builds whatever its index is, stores the index as it is, and records
  the count of the block before it.
\<close>

theorem build_index_check:
  assumes "build_network init (ni # pre) = Inr st"
  shows "(getitem b ''type'' = Inr ''route'' \<and> route_indices (length pre) b = Inr idxs \<and>
            (\<exists>a\<in>set idxs. a < - int (length pre) \<or> int (length pre) \<le> a)
          \<longrightarrow> build_network init (ni # pre @ b # post) = Inl IndexError) \<and>
         (getitem b ''type'' = Inr ''route'' \<and> route_indices (length pre) b = Inr idxs \<and>
            (\<forall>a\<in>set idxs. - int (length pre) \<le> a \<and> a < int (length pre))
          \<longrightarrow> (\<exists>st'. build_network init (ni # pre @ [b]) = Inr st' \<and>
                 module_list st' = module_list st @ [[RouteLayer idxs]] \<and>
                 out_channels st' = out_channels st @
                   [sum_list (map (\<lambda>a. out_channels st !
                                 nat (if a < 0 then int (length pre) + a else a)) idxs)])) \<and>
         (getitem b ''type'' = Inr ''shortcut'' \<and> and_then (getitem b ''from'') py_int = Inr k
          \<longrightarrow> (\<exists>st'. build_network init (ni # pre @ [b]) = Inr st' \<and>
                 module_list st' = module_list st @ [[ShortcutLayer (k + int (length pre))]] \<and>
                 out_channels st' = out_channels st @ [out_channel st]))"
proof (intro conjI impI)
  note len = build_network_length [OF assms]
  note snoc = build_network_snoc [OF assms]
  {
    assume h: "getitem b ''type'' = Inr ''route'' \<and> route_indices (length pre) b = Inr idxs \<and>
            (\<exists>a\<in>set idxs. a < - int (length pre) \<or> int (length pre) \<le> a)"
    then have bb: "build_block init ni (length pre) b st = build_route (length pre) b st"
      using build_block_type(4) [of b "''route''"] by simp
    have "\<not> (\<forall>a\<in>set idxs. - int (length (out_channels st)) \<le> a \<and>
                a < int (length (out_channels st)))"
      using h len by (fastforce simp: not_le not_less)
    then have "map_raise (py_nth (out_channels st)) idxs = Inl IndexError"
      by (simp add: map_raise_py_nth)
    then have "build_route (length pre) b st = Inl IndexError"
      using h by (simp add: build_route_indices)
    then show "build_network init (ni # pre @ b # post) = Inl IndexError"
      by (simp add: snoc bb)
  }
  {
    assume h: "getitem b ''type'' = Inr ''route'' \<and> route_indices (length pre) b = Inr idxs \<and>
            (\<forall>a\<in>set idxs. - int (length pre) \<le> a \<and> a < int (length pre))"
    then have bb: "build_block init ni (length pre) b st = build_route (length pre) b st"
      using build_block_type(4) [of b "''route''"] by simp
    have "\<forall>a\<in>set idxs. - int (length (out_channels st)) \<le> a \<and>
                a < int (length (out_channels st))"
      using h len by auto
    then have "map_raise (py_nth (out_channels st)) idxs =
                 Inr (map (\<lambda>a. out_channels st ! nat (if a < 0 then int (length pre) + a else a))
                        idxs)"
      by (simp add: map_raise_py_nth len)
    then have "build_route (length pre) b st =
                 Inr ([RouteLayer idxs],
                      sum_list (map (\<lambda>a. out_channels st !
                                  nat (if a < 0 then int (length pre) + a else a)) idxs))"
      using h by (simp add: build_route_indices)
    then show "\<exists>st'. build_network init (ni # pre @ [b]) = Inr st' \<and>
                 module_list st' = module_list st @ [[RouteLayer idxs]] \<and>
                 out_channels st' = out_channels st @
                   [sum_list (map (\<lambda>a. out_channels st !
                                 nat (if a < 0 then int (length pre) + a else a)) idxs)]"
      by (simp add: snoc bb)
  }
  {
    assume h: "getitem b ''type'' = Inr ''shortcut'' \<and> and_then (getitem b ''from'') py_int = Inr k"
    then have bb: "build_block init ni (length pre) b st = build_shortcut (length pre) b st"
      using build_block_type(2) [of b "''shortcut''"] by simp
    have "build_shortcut (length pre) b st = Inr ([ShortcutLayer (k + int (length pre))], out_channel st)"
      using h by (simp add: build_shortcut_def)
    then show "\<exists>st'. build_network init (ni # pre @ [b]) = Inr st' \<and>
                 module_list st' = module_list st @ [[ShortcutLayer (k + int (length pre))]] \<and>
                 out_channels st' = out_channels st @ [out_channel st]"
      by (simp add: snoc bb)
  }
qed

theorem build_index_check_witness:
  "build_network ex_init ([ex_net, ex_conv, ex_conv_bn] @ [ex_route ''-100'']) = Inl IndexError \<and>
   (\<exists>st'. build_network ex_init [ex_net, ex_conv, ex_conv_bn, ex_route ''-3''] = Inr st' \<and>
          module_list st' = module_list ex_state2 @ [[RouteLayer [- 1]]] \<and>
          out_channels st' = [2, 1] @ [1]) \<and>
   (\<exists>st'. build_network ex_init [ex_net, ex_conv, ex_conv_bn, ex_shortcut ''-100''] = Inr st' \<and>
          module_list st' = module_list ex_state2 @ [[ShortcutLayer (- 98)]] \<and>
          out_channels st' = [2, 1] @ [1])"
proof -
  have r1: "getitem (ex_route ''-100'') ''type'' = Inr ''route''" by code_simp
  have r2: "route_indices 2 (ex_route ''-100'') = Inr [- 98]" by code_simp
  have r3: "getitem (ex_route ''-3'') ''type'' = Inr ''route''" by code_simp
  have r4: "route_indices 2 (ex_route ''-3'') = Inr [- 1]" by code_simp
  have s1: "getitem (ex_shortcut ''-100'') ''type'' = Inr ''shortcut''" by code_simp
  have s2: "and_then (getitem (ex_shortcut ''-100'') ''from'') py_int = Inr (- 100)" by code_simp
  have pre: "build_network ex_init (ex_net # [ex_conv, ex_conv_bn]) = Inr ex_state2"
    using build_ex_state2 by simp
  have len2: "length [ex_conv, ex_conv_bn] = 2" by simp
  have oc: "out_channels ex_state2 = [2, 1]" "out_channel ex_state2 = 1"
    by (simp_all add: ex_state2_def)
  show ?thesis
    using build_index_check [OF pre, of "ex_route ''-100''" "[- 98]" "[]" 0, unfolded len2]
          build_index_check [OF pre, of "ex_route ''-3''" "[- 1]" "[]" 0, unfolded len2]
          build_index_check [OF pre, of "ex_shortcut ''-100''" "[]" "[]" "- 100", unfolded len2]
          r1 r2 r3 r4 s1 s2
    by (simp add: oc)
qed

text \<open>
  C4 as stated fails: a shortcut block at build position 2 whose index resolves to
  \<open>-98\<close> builds, and the index is stored as it is.
\<close>

theorem build_shortcut_unchecked:
  "build_network ex_init [ex_net, ex_conv, ex_conv_bn, ex_shortcut ''-100''] =
     Inr (ex_state2\<lparr>out_channels := [2, 1, 1],
                     module_list := module_list ex_state2 @ [[ShortcutLayer (- 98)]]\<rparr>)"
  by code_simp

section \<open>Properties of the weight loader\<close>

lemma slice_view_enough:
  assumes "n = numel target" "ptr + n \<le> length ws"
  shows "slice_view ws ptr n target = Inr \<lparr>shape = shape target, data = floats ws ptr n\<rparr>"
  using assms by (simp add: slice_view_def view_as_def from_numpy_def numel_def floats_def)

lemma slice_view_short:
  assumes "n = numel target" "length ws < ptr + n" "ptr \<le> length ws"
  shows "slice_view ws ptr n target = Inl RuntimeError"
  using assms by (auto simp: slice_view_def view_as_def from_numpy_def numel_def)

lemma slice_view_cases:
  assumes "n = numel target" "ptr \<le> length ws"
  shows "slice_view ws ptr n target =
           (if length ws < ptr + n then Inl RuntimeError
            else Inr \<lparr>shape = shape target, data = floats ws ptr n\<rparr>)"
  using assms slice_view_enough [of n target ptr ws] slice_view_short [of n target ws ptr]
  by (simp add: not_less)

lemma conv_wf_bnE:
  assumes "conv_wf True mdl"
  obtains ic oc k s p w nf bw bb rm rv rest where
    "mdl = Conv2d ic oc k s p w None # BatchNorm2d nf bw bb rm rv # rest"
    "shape w = [nat oc, nat ic, nat k, nat k]"
    "shape bw = [nat oc]" "shape bb = [nat oc]" "shape rm = [nat oc]" "shape rv = [nat oc]"
  using assms unfolding conv_wf_def
  by (auto split: list.splits layer.splits)

lemma conv_wf_biasE:
  assumes "conv_wf False mdl"
  obtains ic oc k s p w cb rest where
    "mdl = Conv2d ic oc k s p w (Some cb) # rest"
    "shape w = [nat oc, nat ic, nat k, nat k]" "shape cb = [nat oc]"
  using assms unfolding conv_wf_def
  by (auto split: list.splits layer.splits option.splits)


lemma numel_1 [simp]: "shape t = [n] \<Longrightarrow> numel t = n"
  by (simp add: numel_def)

lemma numel_4 [simp]: "shape t = [a, b, c, d] \<Longrightarrow> numel t = a * b * c * d"
  by (simp add: numel_def mult.assoc)

lemma load_batch_norm_enough:
  assumes "shape bw = [n]" "shape bb = [n]" "shape rm = [n]" "shape rv = [n]"
      and "ptr + 4 * n \<le> length ws"
  shows "load_batch_norm ws conv (BatchNorm2d nf bw bb rm rv # rest) ptr =
           Inr (conv # BatchNorm2d nf
                  \<lparr>shape = shape bw, data = floats ws (ptr + n) n\<rparr>
                  \<lparr>shape = shape bb, data = floats ws ptr n\<rparr>
                  \<lparr>shape = shape rm, data = floats ws (ptr + 2 * n) n\<rparr>
                  \<lparr>shape = shape rv, data = floats ws (ptr + 3 * n) n\<rparr> # rest,
                ptr + 4 * n)"
proof -
  have 1: "slice_view ws ptr n bb = Inr \<lparr>shape = shape bb, data = floats ws ptr n\<rparr>"
    using assms by (intro slice_view_enough) simp_all
  have 2: "slice_view ws (ptr + n) n bw = Inr \<lparr>shape = shape bw, data = floats ws (ptr + n) n\<rparr>"
    using assms by (intro slice_view_enough) simp_all
  have 3: "slice_view ws (ptr + 2 * n) n rm = Inr \<lparr>shape = shape rm, data = floats ws (ptr + 2 * n) n\<rparr>"
    using assms by (intro slice_view_enough) simp_all
  have 4: "slice_view ws (ptr + 3 * n) n rv = Inr \<lparr>shape = shape rv, data = floats ws (ptr + 3 * n) n\<rparr>"
    using assms by (intro slice_view_enough) simp_all
  have e2: "ptr + n + n = ptr + 2 * n" and e3: "ptr + 2 * n + n = ptr + 3 * n"
    and e4: "ptr + 3 * n + n = ptr + 4 * n" by simp_all
  show ?thesis
    using assms(1) unfolding load_batch_norm_def
    by (simp add: Let_def 1 2 3 4 copy_inplace_def e2 e3 e4)
qed

lemma load_bias_enough:
  assumes "shape cb = [n]" "ptr + n \<le> length ws"
  shows "load_bias ws (Conv2d ic oc k s p w (Some cb)) rest ptr =
           Inr (Conv2d ic oc k s p w (Some \<lparr>shape = shape cb, data = floats ws ptr n\<rparr>) # rest, ptr + n)"
proof -
  have 1: "slice_view ws ptr n cb = Inr \<lparr>shape = shape cb, data = floats ws ptr n\<rparr>"
    using assms by (intro slice_view_enough) simp_all
  show ?thesis
    using assms(1) unfolding load_bias_def by (simp add: Let_def 1 copy_inplace_def)
qed

lemma load_kernel_enough:
  assumes "numel w = n" "ptr + n \<le> length ws"
  shows "load_kernel ws (Conv2d ic oc k s p w b # rest) ptr =
           Inr (Conv2d ic oc k s p \<lparr>shape = shape w, data = floats ws ptr n\<rparr> b # rest, ptr + n)"
proof -
  have 1: "slice_view ws ptr n w = Inr \<lparr>shape = shape w, data = floats ws ptr n\<rparr>"
    using assms by (intro slice_view_enough) simp_all
  show ?thesis
    using assms(1) unfolding load_kernel_def by (simp add: Let_def 1 copy_inplace_def)
qed

lemma load_convolutional_enough:
  assumes wf: "conv_wf (has_key b ''batch_normalize'') mdl"
      and ty: "getitem b ''type'' = Inr ''convolutional''"
      and len: "ptr + spec_floats b mdl \<le> length ws"
  shows "load_convolutional (has_key b ''batch_normalize'') ws mdl ptr =
           Inr (spec_loaded ws ptr b mdl, ptr + spec_floats b mdl)"
proof (cases "has_key b ''batch_normalize''")
  case True
  with wf have "conv_wf True mdl" by simp
  then obtain ic oc k s p w nf bw bb rm rv rest where
    mdl: "mdl = Conv2d ic oc k s p w None # BatchNorm2d nf bw bb rm rv # rest" and
    w: "shape w = [nat oc, nat ic, nat k, nat k]" and
    bn: "shape bw = [nat oc]" "shape bb = [nat oc]" "shape rm = [nat oc]" "shape rv = [nat oc]"
    by (rule conv_wf_bnE)
  have fl: "spec_floats b (Conv2d ic oc k s p w None # BatchNorm2d nf bw bb rm rv # rest)
              = 4 * nat oc + nat oc * nat ic * nat k * nat k"
    using True ty by (simp add: spec_floats_def)
  have a: "ptr + 4 * nat oc \<le> length ws" using len fl by (simp add: mdl)
  have b: "ptr + 4 * nat oc + nat oc * nat ic * nat k * nat k \<le> length ws"
    using len fl by (simp add: mdl)
  have kn: "numel w = nat oc * nat ic * nat k * nat k" using w by simp
  show ?thesis
    using True ty
    by (simp add: load_convolutional_def mdl load_batch_norm_enough [OF bn a]
          load_kernel_enough [OF kn b] spec_loaded_def fl Let_def add.assoc)
next
  case False
  with wf have "conv_wf False mdl" by simp
  then obtain ic oc k s p w cb rest where
    mdl: "mdl = Conv2d ic oc k s p w (Some cb) # rest" and
    w: "shape w = [nat oc, nat ic, nat k, nat k]" and cb: "shape cb = [nat oc]"
    by (rule conv_wf_biasE)
  have fl: "spec_floats b (Conv2d ic oc k s p w (Some cb) # rest)
              = nat oc + nat oc * nat ic * nat k * nat k"
    using False ty by (simp add: spec_floats_def)
  have a: "ptr + nat oc \<le> length ws" using len fl by (simp add: mdl)
  have b: "ptr + nat oc + nat oc * nat ic * nat k * nat k \<le> length ws"
    using len fl by (simp add: mdl)
  have kn: "numel w = nat oc * nat ic * nat k * nat k" using w by simp
  show ?thesis
    using False ty
    by (simp add: load_convolutional_def mdl load_bias_enough [OF cb a]
          load_kernel_enough [OF kn b] spec_loaded_def fl Let_def add.assoc)
qed


lemma load_loop_enough:
  assumes "list_all2 module_wf bs ms" "ptr + spec_total bs ms \<le> length ws"
  shows "load_loop bs ws ms ptr = Inr (spec_load_all ws ptr bs ms, ptr + spec_total bs ms)"
  using assms
proof (induction bs ms arbitrary: ptr rule: list_all2_induct)
  case Nil
  show ?case by simp
next
  case (Cons b bs m ms)
  from Cons.hyps(1) obtain ty where ty: "getitem b ''type'' = Inr ty"
    by (auto simp: module_wf_def split: sum.splits)
  show ?case
  proof (cases "ty = ''convolutional''")
    case True
    have wf: "conv_wf (has_key b ''batch_normalize'') m"
      using Cons.hyps(1) ty True by (simp add: module_wf_def)
    have ty': "getitem b ''type'' = Inr ''convolutional''" using ty True by simp
    have "ptr + spec_floats b m \<le> length ws" using Cons.prems by simp
    note step = load_convolutional_enough [OF wf ty' this]
    have "ptr + spec_floats b m + spec_total bs ms \<le> length ws" using Cons.prems by simp
    note rest = Cons.IH [OF this]
    show ?thesis by (simp add: ty' step rest add.assoc)
  next
    case False
    have f0: "spec_floats b m = 0" using ty False by (simp add: spec_floats_def)
    have l0: "spec_loaded ws ptr b m = m" using ty False by (simp add: spec_loaded_def)
    have "ptr + spec_total bs ms \<le> length ws" using Cons.prems f0 by simp
    note rest = Cons.IH [OF this]
    show ?thesis using False by (simp add: ty f0 l0 rest)
  qed
qed

lemma load_batch_norm_short:
  assumes "shape bw = [n]" "shape bb = [n]" "shape rm = [n]" "shape rv = [n]"
      and "ptr \<le> length ws" "length ws < ptr + 4 * n"
  shows "\<exists>p. load_batch_norm ws conv (BatchNorm2d nf bw bb rm rv # rest) ptr =
               Inl (RuntimeError, conv # BatchNorm2d nf bw bb rm rv # rest, p) \<and> p \<le> length ws"
proof -
  have sv: "\<And>q t. shape t = [n] \<Longrightarrow> q \<le> length ws \<Longrightarrow>
              slice_view ws q n t = (if length ws < q + n then Inl RuntimeError
                                     else Inr \<lparr>shape = shape t, data = floats ws q n\<rparr>)"
    by (rule slice_view_cases) simp_all
  consider (a) "length ws < ptr + n"
    | (b) "ptr + n \<le> length ws" "length ws < ptr + n + n"
    | (c) "ptr + n + n \<le> length ws" "length ws < ptr + n + n + n"
    | (d) "ptr + n + n + n \<le> length ws" "length ws < ptr + n + n + n + n"
    using assms(6) by linarith
  then show ?thesis
  proof cases
    case a
    then show ?thesis
      using assms unfolding load_batch_norm_def by (simp add: Let_def sv)
  next
    case b
    then show ?thesis
      using assms unfolding load_batch_norm_def by (simp add: Let_def sv)
  next
    case c
    then show ?thesis
      using assms unfolding load_batch_norm_def by (simp add: Let_def sv)
  next
    case d
    then show ?thesis
      using assms unfolding load_batch_norm_def by (simp add: Let_def sv)
  qed
qed


lemma length_floats: "off + n \<le> length ws \<Longrightarrow> length (floats ws off n) = n"
  by (simp add: floats_def)

lemma tensor_full_floats:
  "prod_list sh = n \<Longrightarrow> off + n \<le> length ws \<Longrightarrow>
     tensor_full \<lparr>shape = sh, data = floats ws off n\<rparr>"
  by (simp add: tensor_full_def length_floats)

lemma load_bias_short:
  assumes "shape cb = [n]" "ptr \<le> length ws" "length ws < ptr + n"
  shows "load_bias ws (Conv2d ic oc k s p w (Some cb)) rest ptr =
           Inl (RuntimeError, Conv2d ic oc k s p w (Some cb) # rest, ptr)"
proof -
  have "slice_view ws ptr n cb = Inl RuntimeError"
    using assms by (intro slice_view_short) simp_all
  then show ?thesis
    using assms(1) unfolding load_bias_def by (simp add: Let_def)
qed

lemma load_kernel_short:
  assumes "numel w = n" "ptr \<le> length ws" "length ws < ptr + n"
  shows "load_kernel ws (Conv2d ic oc k s p w b # rest) ptr =
           Inl (RuntimeError, Conv2d ic oc k s p w b # rest, ptr)"
proof -
  have "slice_view ws ptr n w = Inl RuntimeError"
    using assms by (intro slice_view_short) simp_all
  then show ?thesis
    using assms(1) unfolding load_kernel_def by (simp add: Let_def)
qed

lemma load_convolutional_short:
  assumes wf: "conv_wf (has_key b ''batch_normalize'') mdl"
      and ty: "getitem b ''type'' = Inr ''convolutional''"
      and ptr: "ptr \<le> length ws"
      and len: "length ws < ptr + spec_floats b mdl"
      and full: "list_all layer_full mdl"
  shows "\<exists>m' p. load_convolutional (has_key b ''batch_normalize'') ws mdl ptr =
                  Inl (RuntimeError, m', p) \<and> p \<le> length ws \<and> list_all layer_full m'"
proof (cases "has_key b ''batch_normalize''")
  case True
  with wf have "conv_wf True mdl" by simp
  then obtain ic oc k s p w nf bw bb rm rv rest where
    mdl: "mdl = Conv2d ic oc k s p w None # BatchNorm2d nf bw bb rm rv # rest" and
    w: "shape w = [nat oc, nat ic, nat k, nat k]" and
    bn: "shape bw = [nat oc]" "shape bb = [nat oc]" "shape rm = [nat oc]" "shape rv = [nat oc]"
    by (rule conv_wf_bnE)
  have fl: "spec_floats b (Conv2d ic oc k s p w None # BatchNorm2d nf bw bb rm rv # rest)
              = 4 * nat oc + nat oc * nat ic * nat k * nat k"
    using True ty by (simp add: spec_floats_def)
  have kn: "numel w = nat oc * nat ic * nat k * nat k" using w by simp
  show ?thesis
  proof (cases "length ws < ptr + 4 * nat oc")
    case short: True
    from load_batch_norm_short [OF bn ptr short, of "Conv2d ic oc k s p w None" nf rest]
    obtain q where
      "load_batch_norm ws (Conv2d ic oc k s p w None) (BatchNorm2d nf bw bb rm rv # rest) ptr =
         Inl (RuntimeError, Conv2d ic oc k s p w None # BatchNorm2d nf bw bb rm rv # rest, q)"
      "q \<le> length ws" by blast
    then show ?thesis
      using True full by (simp add: load_convolutional_def mdl)
  next
    case False
    then have a: "ptr + 4 * nat oc \<le> length ws" by simp
    have b: "length ws < ptr + 4 * nat oc + nat oc * nat ic * nat k * nat k"
      using len fl by (simp add: mdl)
    have fullw: "tensor_full w" using full by (simp add: mdl)
    have "tensor_full \<lparr>shape = shape bw, data = floats ws (ptr + nat oc) (nat oc)\<rparr>"
         "tensor_full \<lparr>shape = shape bb, data = floats ws ptr (nat oc)\<rparr>"
         "tensor_full \<lparr>shape = shape rm, data = floats ws (ptr + 2 * nat oc) (nat oc)\<rparr>"
         "tensor_full \<lparr>shape = shape rv, data = floats ws (ptr + 3 * nat oc) (nat oc)\<rparr>"
      using a bn by (auto intro!: tensor_full_floats)
    then show ?thesis
      using True full a
      by (simp add: load_convolutional_def mdl load_batch_norm_enough [OF bn a]
            load_kernel_short [OF kn a b])
  qed
next
  case False
  with wf have "conv_wf False mdl" by simp
  then obtain ic oc k s p w cb rest where
    mdl: "mdl = Conv2d ic oc k s p w (Some cb) # rest" and
    w: "shape w = [nat oc, nat ic, nat k, nat k]" and cb: "shape cb = [nat oc]"
    by (rule conv_wf_biasE)
  have fl: "spec_floats b (Conv2d ic oc k s p w (Some cb) # rest)
              = nat oc + nat oc * nat ic * nat k * nat k"
    using False ty by (simp add: spec_floats_def)
  have kn: "numel w = nat oc * nat ic * nat k * nat k" using w by simp
  show ?thesis
  proof (cases "length ws < ptr + nat oc")
    case short: True
    show ?thesis
      using False full ptr
      by (simp add: load_convolutional_def mdl load_bias_short [OF cb ptr short])
  next
    case nshort: False
    then have a: "ptr + nat oc \<le> length ws" by simp
    have b: "length ws < ptr + nat oc + nat oc * nat ic * nat k * nat k"
      using len fl by (simp add: mdl)
    have "tensor_full \<lparr>shape = shape cb, data = floats ws ptr (nat oc)\<rparr>"
      using a cb by (auto intro!: tensor_full_floats)
    then show ?thesis
      using False full a
      by (simp add: load_convolutional_def mdl load_bias_enough [OF cb a]
            load_kernel_short [OF kn a b])
  qed
qed

lemma spec_loaded_full:
  assumes wf: "module_wf b mdl"
      and len: "ptr + spec_floats b mdl \<le> length ws"
      and full: "list_all layer_full mdl"
  shows "list_all layer_full (spec_loaded ws ptr b mdl)"
proof (cases "getitem b ''type'' = Inr ''convolutional''")
  case False
  then show ?thesis using full by (simp add: spec_loaded_def)
next
  case ty: True
  then have cwf: "conv_wf (has_key b ''batch_normalize'') mdl"
    using wf by (simp add: module_wf_def)
  show ?thesis
  proof (cases "has_key b ''batch_normalize''")
    case True
    with cwf have "conv_wf True mdl" by simp
    then obtain ic oc k s p w nf bw bb rm rv rest where
      mdl: "mdl = Conv2d ic oc k s p w None # BatchNorm2d nf bw bb rm rv # rest" and
      w: "shape w = [nat oc, nat ic, nat k, nat k]" and
      bn: "shape bw = [nat oc]" "shape bb = [nat oc]" "shape rm = [nat oc]" "shape rv = [nat oc]"
      by (rule conv_wf_bnE)
    have l: "ptr + (4 * nat oc + nat oc * nat ic * nat k * nat k) \<le> length ws"
      using len True ty by (simp add: spec_floats_def mdl)
    have "tensor_full \<lparr>shape = shape bw, data = floats ws (ptr + nat oc) (nat oc)\<rparr>"
         "tensor_full \<lparr>shape = shape bb, data = floats ws ptr (nat oc)\<rparr>"
         "tensor_full \<lparr>shape = shape rm, data = floats ws (ptr + 2 * nat oc) (nat oc)\<rparr>"
         "tensor_full \<lparr>shape = shape rv, data = floats ws (ptr + 3 * nat oc) (nat oc)\<rparr>"
         "tensor_full \<lparr>shape = shape w,
             data = floats ws (ptr + 4 * nat oc) (nat oc * nat ic * nat k * nat k)\<rparr>"
      using l bn w by (auto intro!: tensor_full_floats simp: mult.assoc)
    then show ?thesis
      using True ty full by (simp add: spec_loaded_def mdl Let_def)
  next
    case False
    with cwf have "conv_wf False mdl" by simp
    then obtain ic oc k s p w cb rest where
      mdl: "mdl = Conv2d ic oc k s p w (Some cb) # rest" and
      w: "shape w = [nat oc, nat ic, nat k, nat k]" and cb: "shape cb = [nat oc]"
      by (rule conv_wf_biasE)
    have l: "ptr + (nat oc + nat oc * nat ic * nat k * nat k) \<le> length ws"
      using len False ty by (simp add: spec_floats_def mdl)
    have "tensor_full \<lparr>shape = shape cb, data = floats ws ptr (nat oc)\<rparr>"
         "tensor_full \<lparr>shape = shape w,
             data = floats ws (ptr + nat oc) (nat oc * nat ic * nat k * nat k)\<rparr>"
      using l cb w by (auto intro!: tensor_full_floats simp: mult.assoc)
    then show ?thesis
      using False ty full by (simp add: spec_loaded_def mdl Let_def)
  qed
qed


lemma load_loop_short:
  assumes "list_all2 module_wf bs ms" "ptr \<le> length ws"
      and "length ws < ptr + spec_total bs ms" "params_full ms"
  shows "\<exists>ms' p. load_loop bs ws ms ptr = Inl (RuntimeError, ms', p) \<and> p \<le> length ws \<and>
                   params_full ms' \<and> length ms' = length ms"
  using assms
proof (induction bs ms arbitrary: ptr rule: list_all2_induct)
  case Nil
  then show ?case by simp
next
  case (Cons b bs m ms)
  from Cons.hyps(1) obtain ty where ty: "getitem b ''type'' = Inr ty"
    by (auto simp: module_wf_def split: sum.splits)
  have fm: "list_all layer_full m" and fms: "params_full ms"
    using Cons.prems(3) by (simp_all add: params_full_def)
  show ?case
  proof (cases "ty = ''convolutional''")
    case True
    have wf: "conv_wf (has_key b ''batch_normalize'') m"
      using Cons.hyps(1) ty True by (simp add: module_wf_def)
    have ty': "getitem b ''type'' = Inr ''convolutional''" using ty True by simp
    show ?thesis
    proof (cases "length ws < ptr + spec_floats b m")
      case short: True
      from load_convolutional_short [OF wf ty' Cons.prems(1) short fm]
      obtain m' p where
        "load_convolutional (has_key b ''batch_normalize'') ws m ptr = Inl (RuntimeError, m', p)"
        "p \<le> length ws" "list_all layer_full m'" by blast
      then show ?thesis using fms by (simp add: ty' params_full_def)
    next
      case False
      then have fit: "ptr + spec_floats b m \<le> length ws" by simp
      note step = load_convolutional_enough [OF wf ty' fit]
      have "length ws < ptr + spec_floats b m + spec_total bs ms" using Cons.prems(2) by simp
      from Cons.IH [OF fit this fms] obtain ms' p where
        "load_loop bs ws ms (ptr + spec_floats b m) = Inl (RuntimeError, ms', p)"
        "p \<le> length ws" "params_full ms'" "length ms' = length ms" by blast
      then show ?thesis
        using spec_loaded_full [OF Cons.hyps(1) fit fm]
        by (simp add: ty' step params_full_def)
    qed
  next
    case False
    have f0: "spec_floats b m = 0" using ty False by (simp add: spec_floats_def)
    have "length ws < ptr + spec_total bs ms" using Cons.prems(2) f0 by simp
    from Cons.IH [OF Cons.prems(1) this fms] obtain ms' p where
      "load_loop bs ws ms ptr = Inl (RuntimeError, ms', p)"
      "p \<le> length ws" "params_full ms'" "length ms' = length ms" by blast
    then show ?thesis using False fm by (simp add: ty params_full_def)
  qed
qed

lemma Conv2d_new_InrE:
  assumes "Conv2d_new init i ic oc k s p b = Inr conv"
  obtains (with_bias) w cb where "b" "conv = Conv2d ic oc k s p w (Some cb)"
      "0 \<le> ic" "0 \<le> oc" "0 \<le> k"
      "shape w = [nat oc, nat ic, nat k, nat k]" "tensor_full w"
      "shape cb = [nat oc]" "tensor_full cb"
    | (no_bias) w where "\<not> b" "conv = Conv2d ic oc k s p w None"
      "0 \<le> ic" "0 \<le> oc" "0 \<le> k"
      "shape w = [nat oc, nat ic, nat k, nat k]" "tensor_full w"
proof (cases b)
  case True
  from assms True have neg: "\<not> (ic < 0 \<or> oc < 0 \<or> k < 0)"
    and c: "conv = Conv2d ic oc k s p
              \<lparr>shape = [nat oc, nat ic, nat k, nat k],
               data = map (init i ''weight'') [0..<prod_list [nat oc, nat ic, nat k, nat k]]\<rparr>
              (Some \<lparr>shape = [nat oc], data = map (init i ''bias'') [0..<prod_list [nat oc]]\<rparr>)"
    by (auto simp: Conv2d_new_def Let_def split: if_splits)
  show ?thesis
    by (rule with_bias [OF True c]) (use neg in \<open>simp_all add: tensor_full_def\<close>)
next
  case False
  from assms False have neg: "\<not> (ic < 0 \<or> oc < 0 \<or> k < 0)"
    and c: "conv = Conv2d ic oc k s p
              \<lparr>shape = [nat oc, nat ic, nat k, nat k],
               data = map (init i ''weight'') [0..<prod_list [nat oc, nat ic, nat k, nat k]]\<rparr>
              None"
    by (auto simp: Conv2d_new_def Let_def split: if_splits)
  show ?thesis
    by (rule no_bias [OF False c]) (use neg in \<open>simp_all add: tensor_full_def\<close>)
qed

lemma build_convolutional_wf:
  assumes "build_convolutional init i b st = Inr (m, oc)"
  shows "conv_wf (has_key b ''batch_normalize'') m \<and> list_all layer_full m"
  using assms unfolding build_convolutional_def Let_def
  apply (elim and_then_InrE)
  apply (erule Conv2d_new_InrE)
   apply (clarsimp simp: conv_wf_def)
  apply (clarsimp simp: conv_wf_def BatchNorm2d_new_def full_def tensor_full_def)
  done

lemma build_block_wf:
  assumes "build_block init ni i b st = Inr (m, oc)"
  shows "module_wf b m \<and> list_all layer_full m"
proof -
  from assms obtain ty where ty: "getitem b ''type'' = Inr ty"
    by (rule build_block_type_ex)
  note bt = build_block_type [OF ty, of init ni i st]
  show ?thesis
  proof (cases "ty = ''convolutional''")
    case True
    have "build_convolutional init i b st = Inr (m, oc)"
      using assms bt(1) [OF True] by simp
    from build_convolutional_wf [OF this] show ?thesis
      using ty True by (simp add: module_wf_def)
  next
    case False
    have wf: "module_wf b m" using ty False by (simp add: module_wf_def)
    consider (sc) "ty = ''shortcut''" | (up) "ty = ''upsample''"
      | (route) "ty = ''route''" | (yolo) "ty = ''yolo''"
      | (other) "ty \<noteq> ''convolutional''" "ty \<noteq> ''shortcut''" "ty \<noteq> ''upsample''"
          "ty \<noteq> ''route''" "ty \<noteq> ''yolo''"
      using False by argo
    then have "list_all layer_full m"
    proof cases
      case sc
      have "build_shortcut i b st = Inr (m, oc)" using assms bt(2) [OF sc] by simp
      then show ?thesis unfolding build_shortcut_def by (elim and_then_InrE) auto
    next
      case up
      have "build_upsample i b st = Inr (m, oc)" using assms bt(3) [OF up] by simp
      then show ?thesis unfolding build_upsample_def by (elim and_then_InrE) auto
    next
      case route
      have "build_route i b st = Inr (m, oc)" using assms bt(4) [OF route] by simp
      from build_route_Inr [OF this] show ?thesis by auto
    next
      case yolo
      have "build_yolo ni i b st = Inr (m, oc)" using assms bt(5) [OF yolo] by simp
      then show ?thesis unfolding build_yolo_def Let_def
        by (elim and_then_InrE) (auto simp: DetectionLayer_new_def)
    next
      case other
      have "m = []" using assms bt(6) [OF other] by simp
      then show ?thesis by simp
    qed
    with wf show ?thesis by simp
  qed
qed

lemma build_loop_wf:
  "build_loop init ni i bs st = Inr st' \<Longrightarrow>
     \<exists>ms. module_list st' = module_list st @ ms \<and> list_all2 module_wf bs ms \<and> params_full ms"
proof (induction bs arbitrary: i st)
  case Nil
  then show ?case by (simp add: params_full_def)
next
  case (Cons b bs)
  from Cons.prems obtain m oc where
    step: "build_block init ni i b st = Inr (m, oc)" and
    rest: "build_loop init ni (Suc i) bs
             \<lparr>in_channel = oc, out_channel = oc, out_channels = out_channels st @ [oc],
              module_list = module_list st @ [m]\<rparr> = Inr st'"
    by (auto simp: and_then_eq_Inr)
  from Cons.IH [OF rest] obtain ms where
    "module_list st' = (module_list st @ [m]) @ ms" "list_all2 module_wf bs ms" "params_full ms"
    by auto
  then show ?case
    using build_block_wf [OF step]
    by (intro exI [of _ "m # ms"]) (simp add: params_full_def)
qed

lemma build_network_wf:
  assumes "build_network init blocks = Inr st"
  shows "list_all2 module_wf (tl blocks) (module_list st) \<and> params_full (module_list st)"
proof -
  from assms obtain ni bs where blocks: "blocks = ni # bs"
    by (cases blocks) (auto simp: build_network_def)
  have "build_loop init ni 0 bs
          \<lparr>in_channel = 3, out_channel = 3, out_channels = [], module_list = []\<rparr> = Inr st"
    using assms by (simp add: build_network_Cons blocks)
  from build_loop_wf [OF this] show ?thesis
    by (auto simp: blocks)
qed

lemma create_modules_InrE:
  assumes "create_modules init blocks = Inr (net_info, modules)"
  obtains st where "build_network init blocks = Inr st" "modules = module_list st"
    "net_info = hd blocks"
  using assms unfolding create_modules_def by (elim and_then_InrE) auto

text \<open>
  C1. On a network that \<^verbatim>\<open>create_modules\<close> built, and a file that holds at least the
  floats the layers take together, \<^verbatim>\<open>load_weights\<close> succeeds; every module is then as
  \<open>spec_loaded\<close> says, read from the offset where the layers before it ended: for a
  convolutional layer with batch normalisation the normalisation bias, scale, running
  mean and running variance in this order, each of filter-count floats, without it the
  bias of the convolution, then in both cases the kernel of \<open>out \<times> in \<times> k \<times> k\<close>
  floats, each parameter keeping its shape; a layer of any other type takes nothing and
  is unchanged. The cursor ends at the sum of the layers' floats.
\<close>

theorem load_weights_layout:
  assumes "create_modules init blocks = Inr (net_info, modules)"
      and "spec_total (tl blocks) modules \<le> length weights"
  shows "load_weights \<lparr>self_blocks = blocks, self_net_info = net_info,
                        self_module_list = modules, self_header = h\<rparr> header weights =
           Inr (\<lparr>self_blocks = blocks, self_net_info = net_info,
                 self_module_list = spec_load_all weights 0 (tl blocks) modules,
                 self_header = Some header\<rparr>,
                spec_total (tl blocks) modules)"
proof -
  from assms(1) obtain st where st: "build_network init blocks = Inr st"
    and m: "modules = module_list st" by (rule create_modules_InrE)
  have wf: "list_all2 module_wf (tl blocks) modules"
    using build_network_wf [OF st] m by simp
  have "0 + spec_total (tl blocks) modules \<le> length weights" using assms(2) by simp
  from load_loop_enough [OF wf this] show ?thesis
    by (simp add: load_weights_def)
qed

lemma ex_create:
  "create_modules ex_init [ex_net, ex_conv, ex_conv_bn] = Inr (ex_net, module_list ex_state2)"
  by (simp add: create_modules_def build_ex_state2)

theorem load_weights_layout_witness:
  "load_weights ex_darknet [0, 2, 0, 0, 0] (ex_weights 14) =
     Inr (\<lparr>self_blocks = [ex_net, ex_conv, ex_conv_bn], self_net_info = ex_net,
           self_module_list =
             [[Conv2d 3 2 1 1 0 \<lparr>shape = [2, 3, 1, 1], data = [3, 4, 5, 6, 7, 8]\<rparr>
                 (Some \<lparr>shape = [2], data = [1, 2]\<rparr>),
               LeakyReLU (1 / 10) True],
              [Conv2d 2 1 1 1 0 \<lparr>shape = [1, 2, 1, 1], data = [13, 14]\<rparr> None,
               BatchNorm2d 1 \<lparr>shape = [1], data = [10]\<rparr> \<lparr>shape = [1], data = [9]\<rparr>
                 \<lparr>shape = [1], data = [11]\<rparr> \<lparr>shape = [1], data = [12]\<rparr>]],
           self_header = Some [0, 2, 0, 0, 0]\<rparr>, 14)"
proof -
  have t: "spec_total (tl [ex_net, ex_conv, ex_conv_bn]) (module_list ex_state2) = 14"
    by code_simp
  have l: "length (ex_weights 14) = 14" by (simp add: ex_weights_def)
  have e: "spec_load_all (ex_weights 14) 0 (tl [ex_net, ex_conv, ex_conv_bn]) (module_list ex_state2) =
             [[Conv2d 3 2 1 1 0 \<lparr>shape = [2, 3, 1, 1], data = [3, 4, 5, 6, 7, 8]\<rparr>
                 (Some \<lparr>shape = [2], data = [1, 2]\<rparr>),
               LeakyReLU (1 / 10) True],
              [Conv2d 2 1 1 1 0 \<lparr>shape = [1, 2, 1, 1], data = [13, 14]\<rparr> None,
               BatchNorm2d 1 \<lparr>shape = [1], data = [10]\<rparr> \<lparr>shape = [1], data = [9]\<rparr>
                 \<lparr>shape = [1], data = [11]\<rparr> \<lparr>shape = [1], data = [12]\<rparr>]]"
    by code_simp
  have "spec_total (tl [ex_net, ex_conv, ex_conv_bn]) (module_list ex_state2)
          \<le> length (ex_weights 14)"
    by (simp only: t l)
  from load_weights_layout [OF ex_create this, of None "[0, 2, 0, 0, 0]"]
  show ?thesis by (simp only: e t ex_darknet_def)
qed

lemma load_convolutional_partial:
  assumes wf: "conv_wf (has_key b ''batch_normalize'') mdl"
      and ty: "getitem b ''type'' = Inr ''convolutional''"
      and ptr: "ptr \<le> length ws"
      and len: "length ws < ptr + spec_floats b mdl"
  shows "\<exists>p. load_convolutional (has_key b ''batch_normalize'') ws mdl ptr =
                  Inl (RuntimeError, spec_partial ws ptr b mdl, p) \<and> p \<le> length ws"
proof (cases "has_key b ''batch_normalize''")
  case True
  with wf have "conv_wf True mdl" by simp
  then obtain ic oc k s p w nf bw bb rm rv rest where
    mdl: "mdl = Conv2d ic oc k s p w None # BatchNorm2d nf bw bb rm rv # rest" and
    w: "shape w = [nat oc, nat ic, nat k, nat k]" and
    bn: "shape bw = [nat oc]" "shape bb = [nat oc]" "shape rm = [nat oc]" "shape rv = [nat oc]"
    by (rule conv_wf_bnE)
  have fl: "spec_floats b (Conv2d ic oc k s p w None # BatchNorm2d nf bw bb rm rv # rest)
              = 4 * nat oc + nat oc * nat ic * nat k * nat k"
    using True ty by (simp add: spec_floats_def)
  have kn: "numel w = nat oc * nat ic * nat k * nat k" using w by simp
  show ?thesis
  proof (cases "length ws < ptr + 4 * nat oc")
    case short: True
    from load_batch_norm_short [OF bn ptr short, of "Conv2d ic oc k s p w None" nf rest]
    obtain q where
      "load_batch_norm ws (Conv2d ic oc k s p w None) (BatchNorm2d nf bw bb rm rv # rest) ptr =
         Inl (RuntimeError, Conv2d ic oc k s p w None # BatchNorm2d nf bw bb rm rv # rest, q)"
      "q \<le> length ws" by blast
    then show ?thesis
      using True short by (simp add: load_convolutional_def mdl spec_partial_def Let_def)
  next
    case False
    then have a: "ptr + 4 * nat oc \<le> length ws" by simp
    have b: "length ws < ptr + 4 * nat oc + nat oc * nat ic * nat k * nat k"
      using len fl by (simp add: mdl)
    show ?thesis
      using True a
      by (simp add: load_convolutional_def mdl load_batch_norm_enough [OF bn a]
            load_kernel_short [OF kn a b] spec_partial_def Let_def)
  qed
next
  case False
  with wf have "conv_wf False mdl" by simp
  then obtain ic oc k s p w cb rest where
    mdl: "mdl = Conv2d ic oc k s p w (Some cb) # rest" and
    w: "shape w = [nat oc, nat ic, nat k, nat k]" and cb: "shape cb = [nat oc]"
    by (rule conv_wf_biasE)
  have fl: "spec_floats b (Conv2d ic oc k s p w (Some cb) # rest)
              = nat oc + nat oc * nat ic * nat k * nat k"
    using False ty by (simp add: spec_floats_def)
  have kn: "numel w = nat oc * nat ic * nat k * nat k" using w by simp
  show ?thesis
  proof (cases "length ws < ptr + nat oc")
    case short: True
    show ?thesis
      using False ptr short
      by (simp add: load_convolutional_def mdl load_bias_short [OF cb ptr short] spec_partial_def Let_def)
  next
    case nshort: False
    then have a: "ptr + nat oc \<le> length ws" by simp
    have b: "length ws < ptr + nat oc + nat oc * nat ic * nat k * nat k"
      using len fl by (simp add: mdl)
    show ?thesis
      using False a
      by (simp add: load_convolutional_def mdl load_bias_enough [OF cb a]
            load_kernel_short [OF kn a b] spec_partial_def Let_def)
  qed
qed

lemma load_loop_partial:
  assumes "list_all2 module_wf bs ms" "ptr \<le> length ws"
      and "length ws < ptr + spec_total bs ms"
  shows "\<exists>p. load_loop bs ws ms ptr = Inl (RuntimeError, spec_load_short ws ptr bs ms, p) \<and>
              p \<le> length ws"
  using assms
proof (induction bs ms arbitrary: ptr rule: list_all2_induct)
  case Nil
  then show ?case by simp
next
  case (Cons b bs m ms)
  from Cons.hyps(1) obtain ty where ty: "getitem b ''type'' = Inr ty"
    by (auto simp: module_wf_def split: sum.splits)
  show ?case
  proof (cases "ty = ''convolutional''")
    case True
    have wf: "conv_wf (has_key b ''batch_normalize'') m"
      using Cons.hyps(1) ty True by (simp add: module_wf_def)
    have ty': "getitem b ''type'' = Inr ''convolutional''" using ty True by simp
    show ?thesis
    proof (cases "length ws < ptr + spec_floats b m")
      case short: True
      from load_convolutional_partial [OF wf ty' Cons.prems(1) short]
      obtain p where
        "load_convolutional (has_key b ''batch_normalize'') ws m ptr =
           Inl (RuntimeError, spec_partial ws ptr b m, p)"
        "p \<le> length ws" by blast
      then show ?thesis using short by (simp add: ty')
    next
      case False
      then have fit: "ptr + spec_floats b m \<le> length ws" by simp
      note step = load_convolutional_enough [OF wf ty' fit]
      have "length ws < ptr + spec_floats b m + spec_total bs ms" using Cons.prems(2) by simp
      from Cons.IH [OF fit this] obtain p where
        "load_loop bs ws ms (ptr + spec_floats b m) =
           Inl (RuntimeError, spec_load_short ws (ptr + spec_floats b m) bs ms, p)"
        "p \<le> length ws" by blast
      then show ?thesis
        using fit by (simp add: ty' step)
    qed
  next
    case False
    have f0: "spec_floats b m = 0" using ty False by (simp add: spec_floats_def)
    have sl: "spec_loaded ws ptr b m = m" using ty False by (simp add: spec_loaded_def)
    have "length ws < ptr + spec_total bs ms" using Cons.prems(2) f0 by simp
    from Cons.IH [OF Cons.prems(1) this] obtain p where
      "load_loop bs ws ms ptr = Inl (RuntimeError, spec_load_short ws ptr bs ms, p)"
      "p \<le> length ws" by blast
    then show ?thesis using False Cons.prems(1) by (simp add: ty f0 sl)
  qed
qed

text \<open>
  C7 (as amended). On a network that \<^verbatim>\<open>create_modules\<close> built, and a file with fewer
  floats than the layers take together, \<^verbatim>\<open>load_weights\<close> fails with the RuntimeError
  of \<^verbatim>\<open>view_as\<close>, and the object is left as \<open>spec_load_short\<close> says: the layers whose
  floats the file holds in full are loaded from the file; in the first layer for which
  it does not, the normalisation parameters (or the bias) hold the floats of the file if
  all their slices are complete and keep their values otherwise, and the kernel keeps
  its value; the layers after it are untouched. So no short slice is assigned, and every
  parameter still holds exactly as many elements as its shape says. The cursor has not
  passed the end of the floats.
\<close>

theorem load_weights_truncated:
  assumes "create_modules init blocks = Inr (net_info, modules)"
      and "length weights < spec_total (tl blocks) modules"
  shows "\<exists>ptr.
           load_weights \<lparr>self_blocks = blocks, self_net_info = net_info,
                          self_module_list = modules, self_header = h\<rparr> header weights =
             Inl (RuntimeError,
                  \<lparr>self_blocks = blocks, self_net_info = net_info,
                   self_module_list = spec_load_short weights 0 (tl blocks) modules,
                   self_header = Some header\<rparr>, ptr) \<and>
           ptr \<le> length weights \<and>
           params_full (spec_load_short weights 0 (tl blocks) modules)"
proof -
  from assms(1) obtain st where st: "build_network init blocks = Inr st"
    and m: "modules = module_list st" by (rule create_modules_InrE)
  have wf: "list_all2 module_wf (tl blocks) modules" and full: "params_full modules"
    using build_network_wf [OF st] m by simp_all
  have short: "length weights < 0 + spec_total (tl blocks) modules" using assms(2) by simp
  from load_loop_short [OF wf _ short full] obtain ms' p where
    a: "load_loop (tl blocks) weights modules 0 = Inl (RuntimeError, ms', p)"
    and pf: "params_full ms'" by auto
  from load_loop_partial [OF wf _ short] obtain q where
    b: "load_loop (tl blocks) weights modules 0 =
          Inl (RuntimeError, spec_load_short weights 0 (tl blocks) modules, q)"
    and q: "q \<le> length weights" by auto
  from a b have "ms' = spec_load_short weights 0 (tl blocks) modules" by simp
  with pf b q show ?thesis by (simp add: load_weights_def)
qed

lemma ex_create_neg:
  "create_modules ex_init_neg [ex_net, ex_conv, ex_conv_bn] = Inr (ex_net, ex_modules_neg)"
  by code_simp

text \<open>
  The example network takes 14 floats. With 13 the kernel of the second layer comes up
  short: the first layer and the normalisation of the second hold the floats of the
  file, the kernel keeps its \<open>-1\<close>. With 10 the third normalisation slice comes up
  short: the first layer is loaded, the second is untouched.
\<close>

theorem load_weights_truncated_witness:
  "(\<exists>ptr. load_weights ex_darknet_neg [0, 2, 0, 0, 0] (ex_weights 13) =
       Inl (RuntimeError,
            \<lparr>self_blocks = [ex_net, ex_conv, ex_conv_bn], self_net_info = ex_net,
             self_module_list =
               [[Conv2d 3 2 1 1 0 \<lparr>shape = [2, 3, 1, 1], data = [3, 4, 5, 6, 7, 8]\<rparr>
                   (Some \<lparr>shape = [2], data = [1, 2]\<rparr>),
                 LeakyReLU (1 / 10) True],
                [Conv2d 2 1 1 1 0 \<lparr>shape = [1, 2, 1, 1], data = [- 1, - 1]\<rparr> None,
                 BatchNorm2d 1 \<lparr>shape = [1], data = [10]\<rparr> \<lparr>shape = [1], data = [9]\<rparr>
                   \<lparr>shape = [1], data = [11]\<rparr> \<lparr>shape = [1], data = [12]\<rparr>]],
             self_header = Some [0, 2, 0, 0, 0]\<rparr>, ptr) \<and> ptr \<le> 13) \<and>
   (\<exists>ptr. load_weights ex_darknet_neg [0, 2, 0, 0, 0] (ex_weights 10) =
       Inl (RuntimeError,
            \<lparr>self_blocks = [ex_net, ex_conv, ex_conv_bn], self_net_info = ex_net,
             self_module_list =
               [[Conv2d 3 2 1 1 0 \<lparr>shape = [2, 3, 1, 1], data = [3, 4, 5, 6, 7, 8]\<rparr>
                   (Some \<lparr>shape = [2], data = [1, 2]\<rparr>),
                 LeakyReLU (1 / 10) True],
                [Conv2d 2 1 1 1 0 \<lparr>shape = [1, 2, 1, 1], data = [- 1, - 1]\<rparr> None,
                 BatchNorm2d 1 \<lparr>shape = [1], data = [1]\<rparr> \<lparr>shape = [1], data = [0]\<rparr>
                   \<lparr>shape = [1], data = [0]\<rparr> \<lparr>shape = [1], data = [1]\<rparr>]],
             self_header = Some [0, 2, 0, 0, 0]\<rparr>, ptr) \<and> ptr \<le> 10)"
proof -
  have t: "spec_total (tl [ex_net, ex_conv, ex_conv_bn]) ex_modules_neg = 14"
    by code_simp
  have l13: "length (ex_weights 13) = 13" and l10: "length (ex_weights 10) = 10"
    by (simp_all add: ex_weights_def)
  have s13: "length (ex_weights 13) < spec_total (tl [ex_net, ex_conv, ex_conv_bn]) ex_modules_neg"
    by (simp only: t l13)
  have s10: "length (ex_weights 10) < spec_total (tl [ex_net, ex_conv, ex_conv_bn]) ex_modules_neg"
    by (simp only: t l10)
  have e13: "spec_load_short (ex_weights 13) 0 (tl [ex_net, ex_conv, ex_conv_bn]) ex_modules_neg =
               [[Conv2d 3 2 1 1 0 \<lparr>shape = [2, 3, 1, 1], data = [3, 4, 5, 6, 7, 8]\<rparr>
                   (Some \<lparr>shape = [2], data = [1, 2]\<rparr>),
                 LeakyReLU (1 / 10) True],
                [Conv2d 2 1 1 1 0 \<lparr>shape = [1, 2, 1, 1], data = [- 1, - 1]\<rparr> None,
                 BatchNorm2d 1 \<lparr>shape = [1], data = [10]\<rparr> \<lparr>shape = [1], data = [9]\<rparr>
                   \<lparr>shape = [1], data = [11]\<rparr> \<lparr>shape = [1], data = [12]\<rparr>]]"
    by code_simp
  have e10: "spec_load_short (ex_weights 10) 0 (tl [ex_net, ex_conv, ex_conv_bn]) ex_modules_neg =
               [[Conv2d 3 2 1 1 0 \<lparr>shape = [2, 3, 1, 1], data = [3, 4, 5, 6, 7, 8]\<rparr>
                   (Some \<lparr>shape = [2], data = [1, 2]\<rparr>),
                 LeakyReLU (1 / 10) True],
                [Conv2d 2 1 1 1 0 \<lparr>shape = [1, 2, 1, 1], data = [- 1, - 1]\<rparr> None,
                 BatchNorm2d 1 \<lparr>shape = [1], data = [1]\<rparr> \<lparr>shape = [1], data = [0]\<rparr>
                   \<lparr>shape = [1], data = [0]\<rparr> \<lparr>shape = [1], data = [1]\<rparr>]]"
    by code_simp
  from load_weights_truncated [OF ex_create_neg s13, of None "[0, 2, 0, 0, 0]"]
  have a: "\<exists>ptr. load_weights ex_darknet_neg [0, 2, 0, 0, 0] (ex_weights 13) =
       Inl (RuntimeError,
            \<lparr>self_blocks = [ex_net, ex_conv, ex_conv_bn], self_net_info = ex_net,
             self_module_list =
               spec_load_short (ex_weights 13) 0 (tl [ex_net, ex_conv, ex_conv_bn]) ex_modules_neg,
             self_header = Some [0, 2, 0, 0, 0]\<rparr>, ptr) \<and> ptr \<le> 13"
    unfolding l13 ex_darknet_neg_def by blast
  from load_weights_truncated [OF ex_create_neg s10, of None "[0, 2, 0, 0, 0]"]
  have b: "\<exists>ptr. load_weights ex_darknet_neg [0, 2, 0, 0, 0] (ex_weights 10) =
       Inl (RuntimeError,
            \<lparr>self_blocks = [ex_net, ex_conv, ex_conv_bn], self_net_info = ex_net,
             self_module_list =
               spec_load_short (ex_weights 10) 0 (tl [ex_net, ex_conv, ex_conv_bn]) ex_modules_neg,
             self_header = Some [0, 2, 0, 0, 0]\<rparr>, ptr) \<and> ptr \<le> 10"
    unfolding l10 ex_darknet_neg_def by blast
  from a b show ?thesis unfolding e13 e10 by (rule conjI)
qed

text \<open>
  C7 as stated fails: with 13 of the 14 floats the example network takes, the error
  raised is RuntimeError, not WeightFormatError; the first layer and the normalisation
  of the second are already overwritten, the kernel of the second is not.
\<close>

theorem load_weights_truncated_error:
  "load_weights ex_darknet_neg [0, 2, 0, 0, 0] (ex_weights 13) =
     Inl (RuntimeError,
          \<lparr>self_blocks = [ex_net, ex_conv, ex_conv_bn], self_net_info = ex_net,
           self_module_list =
             [[Conv2d 3 2 1 1 0 \<lparr>shape = [2, 3, 1, 1], data = [3, 4, 5, 6, 7, 8]\<rparr>
                 (Some \<lparr>shape = [2], data = [1, 2]\<rparr>),
               LeakyReLU (1 / 10) True],
              [Conv2d 2 1 1 1 0 \<lparr>shape = [1, 2, 1, 1], data = [- 1, - 1]\<rparr> None,
               BatchNorm2d 1 \<lparr>shape = [1], data = [10]\<rparr> \<lparr>shape = [1], data = [9]\<rparr>
                 \<lparr>shape = [1], data = [11]\<rparr> \<lparr>shape = [1], data = [12]\<rparr>]],
           self_header = Some [0, 2, 0, 0, 0]\<rparr>, 12)"
  by code_simp

section \<open>Properties of the tensor library\<close>

lemma length_all_indices [simp]: "length (all_indices s) = prod_list s"
proof (induction s)
  case Nil
  show ?case by simp
next
  case (Cons n ns)
  have "length (concat (map (\<lambda>i. map ((#) i) (all_indices ns)) [0..<n])) = n * prod_list ns"
    by (simp add: length_concat comp_def Cons.IH sum_list_triv)
  then show ?case by simp
qed

lemma set_all_indices: "set (all_indices s) = {ix. list_all2 (<) ix s}"
proof (induction s)
  case Nil
  show ?case by auto
next
  case (Cons n ns)
  show ?case
  proof (rule set_eqI)
    fix ix
    show "ix \<in> set (all_indices (n # ns)) \<longleftrightarrow> ix \<in> {ix. list_all2 (<) ix (n # ns)}"
      using Cons.IH by (cases ix) (auto simp: list_all2_Cons2)
  qed
qed

lemma concat_blocks_upt:
  "concat (map (\<lambda>i. map (\<lambda>k. i * p + k) [0..<p]) [0..<n]) = [0..<n * p]"
proof (induction n)
  case 0
  show ?case by simp
next
  case (Suc n)
  have a: "map (\<lambda>k. n * p + k) [0..<p] = [n * p..<n * p + p]"
    using map_add_upt [of "n * p" p] by (simp add: add.commute)
  have b: "[0..<n * p + p] = [0..<n * p] @ [n * p..<n * p + p]"
    by (rule upt_add_eq_append) simp
  have "concat (map (\<lambda>i. map (\<lambda>k. i * p + k) [0..<p]) [0..<Suc n]) =
          concat (map (\<lambda>i. map (\<lambda>k. i * p + k) [0..<p]) [0..<n]) @ map (\<lambda>k. n * p + k) [0..<p]"
    by simp
  also have "\<dots> = [0..<n * p + p]" by (simp only: Suc.IH a b)
  finally show ?case by (simp add: add.commute)
qed

lemma ravel_Cons [simp]: "ravel (n # ns) (i # ix) = i * prod_list ns + ravel ns ix"
  by (simp add: ravel_def offset_def)

lemma ravel_Nil [simp]: "ravel [] [] = 0"
  by (simp add: ravel_def offset_def)

lemma map_ravel_all_indices: "map (ravel s) (all_indices s) = [0..<prod_list s]"
proof (induction s)
  case Nil
  show ?case by simp
next
  case (Cons n ns)
  have "map (ravel (n # ns)) (all_indices (n # ns)) =
          concat (map (\<lambda>i. map (\<lambda>ix. i * prod_list ns + ravel ns ix) (all_indices ns)) [0..<n])"
    by (simp add: map_concat comp_def)
  also have "\<dots> = concat (map (\<lambda>i. map (\<lambda>k. i * prod_list ns + k) (map (ravel ns) (all_indices ns))) [0..<n])"
    by (simp add: comp_def)
  also have "\<dots> = [0..<n * prod_list ns]"
    by (simp only: Cons.IH concat_blocks_upt)
  finally show ?case by simp
qed

lemma nth_all_indices:
  assumes "list_all2 (<) ix s"
  shows "ravel s ix < prod_list s \<and> all_indices s ! ravel s ix = ix"
proof -
  from assms have "ix \<in> set (all_indices s)" by (simp add: set_all_indices)
  then obtain k where k: "k < prod_list s" "all_indices s ! k = ix"
    by (auto simp: in_set_conv_nth)
  have "map (ravel s) (all_indices s) ! k = [0..<prod_list s] ! k"
    by (simp only: map_ravel_all_indices)
  then have "ravel s ix = k" using k by simp
  with k show ?thesis by simp
qed

lemma tget_std: "std h t \<Longrightarrow> tget h t ix = (h ! stor t) ! ravel (tshape t) ix"
  by (simp add: std_def tget_def ravel_def)

lemma contents_std:
  assumes "std h t"
  shows "contents h t = \<lparr>shape = tshape t, data = h ! stor t\<rparr>"
proof -
  have "map (tget h t) (all_indices (tshape t)) =
          map ((!) (h ! stor t)) (map (ravel (tshape t)) (all_indices (tshape t)))"
    using assms by (simp add: tget_std comp_def)
  also have "\<dots> = map ((!) (h ! stor t)) [0..<length (h ! stor t)]"
    using assms by (simp only: map_ravel_all_indices std_def)
  also have "\<dots> = h ! stor t" by (rule map_nth)
  finally show ?thesis by (simp add: contents_def)
qed

lemma foldl_update_range:
  "n + length vals \<le> length s \<Longrightarrow>
     foldl (\<lambda>s (k, v). s[k := v]) s (zip [n..<n + length vals] vals) =
       take n s @ vals @ drop (n + length vals) s"
proof (induction vals arbitrary: n s)
  case Nil
  show ?case by simp
next
  case (Cons v vs)
  have n: "n < length s" using Cons.prems by simp
  have "[n..<n + length (v # vs)] = n # [Suc n..<Suc n + length vs]"
    by (subst upt_conv_Cons) simp_all
  then have z: "zip [n..<n + length (v # vs)] (v # vs) = (n, v) # zip [Suc n..<Suc n + length vs] vs"
    by (simp only: zip_Cons_Cons)
  have "foldl (\<lambda>s (k, v). s[k := v]) s (zip [n..<n + length (v # vs)] (v # vs)) =
          foldl (\<lambda>s (k, v). s[k := v]) (s[n := v]) (zip [Suc n..<Suc n + length vs] vs)"
    by (simp only: z foldl_Cons prod.case)
  also have "\<dots> = take (Suc n) (s[n := v]) @ vs @ drop (Suc n + length vs) (s[n := v])"
    using Cons.prems by (intro Cons.IH) simp
  also have "take (Suc n) (s[n := v]) = take n s @ [v]"
    using n by (simp add: take_Suc_conv_app_nth)
  also have "drop (Suc n + length vs) (s[n := v]) = drop (n + length (v # vs)) s"
    by simp
  finally show ?case by simp
qed

lemma foldl_update_all:
  "length s = length vals \<Longrightarrow>
     foldl (\<lambda>s (k, v). s[k := v]) s (zip [0..<length vals] vals) = vals"
  using foldl_update_range [of 0 vals s] by simp

lemma foldl_zip_map:
  "foldl (\<lambda>s (x, v). s[g x := v]) s (zip xs vals) =
     foldl (\<lambda>s (k, v). s[k := v]) s (zip (map g xs) vals)"
proof (induction xs arbitrary: vals s)
  case Nil
  show ?case by simp
next
  case (Cons x xs)
  then show ?case by (cases vals) simp_all
qed

lemma scatter_std:
  assumes "std h t" "length vals = prod_list (tshape t)"
  shows "scatter h t vals = h[stor t := vals]"
proof -
  have "foldl (\<lambda>s (ix, v). s[offset (tstrides t) ix := v]) (h ! stor t)
          (zip (all_indices (tshape t)) vals) =
        foldl (\<lambda>s (k, v). s[k := v]) (h ! stor t)
          (zip (map (ravel (tshape t)) (all_indices (tshape t))) vals)"
    using assms(1) by (simp add: foldl_zip_map [symmetric] std_def ravel_def)
  also have "\<dots> = foldl (\<lambda>s (k, v). s[k := v]) (h ! stor t) (zip [0..<length vals] vals)"
    by (simp only: map_ravel_all_indices assms(2))
  also have "\<dots> = vals"
    using assms by (intro foldl_update_all) (simp add: std_def)
  finally show ?thesis by (simp add: scatter_def)
qed

lemma update_where_std:
  assumes "std h t"
  shows "update_where h t P f =
           h[stor t := map (\<lambda>ix. if P ix then f ix (tget h t ix) else tget h t ix)
                         (all_indices (tshape t))]"
  using assms by (simp add: update_where_def scatter_std)

lemma std_update_where:
  assumes "std h t"
  shows "std (update_where h t P f) t"
  using assms by (simp add: update_where_std) (simp add: std_def)

lemma tget_update_where:
  assumes "std h t" "list_all2 (<) ix (tshape t)"
  shows "tget (update_where h t P f) t ix =
           (if P ix then f ix (tget h t ix) else tget h t ix)"
proof -
  note n = nth_all_indices [OF assms(2)]
  have "tget (update_where h t P f) t ix =
          map (\<lambda>ix. if P ix then f ix (tget h t ix) else tget h t ix)
            (all_indices (tshape t)) ! ravel (tshape t) ix"
    using assms(1) by (simp add: update_where_std tget_def ravel_def std_def)
  also have "\<dots> = (if P ix then f ix (tget h t ix) else tget h t ix)"
    using n by simp
  finally show ?thesis .
qed

lemma length_row_major [simp]: "length (row_major s) = length s"
  by (induction s) simp_all

lemma row_major_snoc: "row_major (s @ [n]) = map (\<lambda>x. x * n) (row_major s) @ [1]"
  by (induction s) simp_all

lemma contig_from_row_major:
  "contig_from z (rev (zip s (map (\<lambda>x. x * z) (row_major s))))"
proof (induction s arbitrary: z rule: rev_induct)
  case Nil
  show ?case by simp
next
  case (snoc n s)
  have "zip (s @ [n]) (map (\<lambda>x. x * z) (row_major (s @ [n]))) =
          zip s (map (\<lambda>x. x * (z * n)) (row_major s)) @ [(n, z)]"
    by (simp add: row_major_snoc comp_def mult_ac)
  then show ?case
    using snoc.IH [of "z * n"] snoc.IH [of z] by auto
qed

lemma is_contiguous_row_major:
  "tstrides t = row_major (tshape t) \<Longrightarrow> is_contiguous t"
  using contig_from_row_major [of 1 "tshape t"] by (simp add: is_contiguous_def)

lemma infer_size_exact:
  "prod_list s = n \<Longrightarrow> infer_size (map int s) n = Inr s"
  by (auto simp: infer_size_def Let_def comp_def filter_id_conv)

lemma view_std:
  assumes "tstrides t = row_major (tshape t)" "infer_size dims (prod_list (tshape t)) = Inr s"
  shows "view t dims = Inr \<lparr>stor = stor t, tshape = s, tstrides = row_major s\<rparr>"
  using assms by (simp add: view_def is_contiguous_row_major)

lemma nth_concat_blocks:
  assumes "\<And>i. i < n \<Longrightarrow> length (f i) = p" "i < n" "k < p"
  shows "concat (map f [0..<n]) ! (i * p + k) = f i ! k"
  using assms
proof (induction n)
  case 0
  then show ?case by simp
next
  case (Suc n)
  have meq: "map (\<lambda>x. length (f x)) [0..<n] = map (\<lambda>x. p) [0..<n]"
    using Suc.prems(1) by (intro map_cong) simp_all
  have "length (concat (map f [0..<n])) = sum_list (map (\<lambda>x. length (f x)) [0..<n])"
    by (simp add: length_concat comp_def)
  also have "\<dots> = sum_list (map (\<lambda>x. p) [0..<n])" by (simp only: meq)
  also have "\<dots> = n * p" by (simp add: sum_list_triv)
  finally have len: "length (concat (map f [0..<n])) = n * p" .
  show ?case
  proof (cases "i < n")
    case True
    then have "i * p + k < n * p"
      using Suc.prems(3) by (metis Suc_leI add.commute add_less_cancel_left less_le_trans mult_Suc mult_le_mono1)
    then show ?thesis
      using Suc.IH [OF _ True Suc.prems(3)] Suc.prems(1) len by (simp add: nth_append)
  next
    case False
    then have "i = n" using Suc.prems(2) by simp
    then show ?thesis using len Suc.prems(3) by (simp add: nth_append)
  qed
qed

lemma update_where_map:
  assumes "a < length h"
  shows "update_where (h[a := map F (all_indices sh)])
           \<lparr>stor = a, tshape = sh, tstrides = row_major sh\<rparr> P f =
         h[a := map (\<lambda>ix. if P ix then f ix (F ix) else F ix) (all_indices sh)]"
proof -
  let ?h = "h[a := map F (all_indices sh)]"
  let ?d = "\<lparr>stor = a, tshape = sh, tstrides = row_major sh\<rparr>"
  have s: "std ?h ?d" using assms by (simp add: std_def)
  have "\<And>ix. ix \<in> set (all_indices sh) \<Longrightarrow> tget ?h ?d ix = F ix"
  proof -
    fix ix assume "ix \<in> set (all_indices sh)"
    then have v: "list_all2 (<) ix sh" by (simp add: set_all_indices)
    show "tget ?h ?d ix = F ix"
      using nth_all_indices [OF v] assms by (simp add: tget_std [OF s])
  qed
  then have m: "map (\<lambda>ix. if P ix then f ix (tget ?h ?d ix) else tget ?h ?d ix) (all_indices sh) =
             map (\<lambda>ix. if P ix then f ix (F ix) else F ix) (all_indices sh)"
    by (intro map_cong) simp_all
  have "update_where ?h ?d P f =
          ?h[a := map (\<lambda>ix. if P ix then f ix (tget ?h ?d ix) else tget ?h ?d ix) (all_indices sh)]"
    using update_where_std [OF s, of P f] by simp
  also have "\<dots> = ?h[a := map (\<lambda>ix. if P ix then f ix (F ix) else F ix) (all_indices sh)]"
    by (simp only: m)
  finally show ?thesis by simp
qed

lemma std_storage:
  assumes "std h t"
  shows "h = h[stor t := map (tget h t) (all_indices (tshape t))]"
proof -
  have "map (tget h t) (all_indices (tshape t)) = h ! stor t"
    using contents_std [OF assms] by (simp add: contents_def)
  then show ?thesis by simp
qed

lemma valid5E:
  assumes "list_all2 (<) ix [n0, n1, n2, n3, n4 :: nat]"
  obtains b a c r j where "ix = [b, a, c, r, j]" "b < n0" "a < n1" "c < n2" "r < n3" "j < n4"
  using assms by (auto simp: list_all2_Cons2)

lemma expanded_x_offset:
  assumes "r < g" "j < g"
  shows "expanded (fst (meshgrid_xy g)) [b, a, r, j] = real j"
proof -
  have "concat (map (\<lambda>r. map real [0..<g]) [0..<g]) ! (r * g + j) = map real [0..<g] ! j"
    using assms by (intro nth_concat_blocks) simp_all
  then show ?thesis
    using assms by (auto simp: expanded_def meshgrid_xy_def)
qed

lemma expanded_y_offset:
  assumes "r < g" "j < g"
  shows "expanded (snd (meshgrid_xy g)) [b, a, r, j] = real r"
proof -
  have "concat (map (\<lambda>r. replicate g (real r)) [0..<g]) ! (r * g + j) = replicate g (real r) ! j"
    using assms by (intro nth_concat_blocks) simp_all
  then show ?thesis
    using assms by (auto simp: expanded_def meshgrid_xy_def)
qed

lemma expanded_anchors:
  assumes "shape anch = [A, 2]" "a < A" "k < 2"
  shows "expanded (anch\<lparr>shape := shape anch @ [1, 1]\<rparr>) [b, a, k, r, j] = data anch ! (2 * a + k)"
  using assms by (auto simp: expanded_def mult.commute)

section \<open>Properties of the detection layer\<close>

lemma infer_size_last:
  assumes "0 < B" "0 < c" "d = int c" "n = B * c * m"
  shows "infer_size [int B, d, - 1] n = Inr [B, c, m]"
  using assms by (simp add: infer_size_def Let_def)

lemma transposed_contiguous:
  assumes "0 < B" "2 \<le> c" "0 < g" "0 < A"
  shows "is_contiguous \<lparr>stor = s, tshape = swap12 [B, A, c, g, g],
                         tstrides = swap12 (row_major [B, A, c, g, g])\<rparr> \<longleftrightarrow> A = 1"
  using assms by (auto simp: is_contiguous_def swap12_def)

lemma detection_updates:
  fixes B A C g :: nat and F :: "nat list \<Rightarrow> real" and h h0 :: heap and x :: tref
    and anch :: "real tensor" and stride :: int
  assumes a: "stor x < length h" and pos: "0 < g" and an: "shape anch = [A, 2]"
    and h0: "h0 = h[stor x := map F (all_indices [B, A, 5 + C, g, g])]"
  defines "sh \<equiv> [B, A, 5 + C, g, g]"
  defines "d \<equiv> \<lparr>stor = stor x, tshape = sh, tstrides = row_major sh\<rparr>"
  defines "h1 \<equiv> update_where h0 d (\<lambda>ix. ix ! 2 < 2) (\<lambda>ix v. sigmoid v)"
  defines "h2 \<equiv> update_where h1 d (\<lambda>ix. 4 \<le> ix ! 2) (\<lambda>ix v. sigmoid v)"
  defines "h3 \<equiv> update_where h2 d (\<lambda>ix. ix ! 2 = 0)
               (\<lambda>ix v. v + expanded (fst (meshgrid_xy g)) [ix ! 0, ix ! 1, ix ! 3, ix ! 4])"
  defines "h4 \<equiv> update_where h3 d (\<lambda>ix. ix ! 2 = 1)
               (\<lambda>ix v. v + expanded (snd (meshgrid_xy g)) [ix ! 0, ix ! 1, ix ! 3, ix ! 4])"
  defines "h5 \<equiv> update_where h4 d (\<lambda>ix. ix ! 2 < 2) (\<lambda>ix v. v * real_of_int stride)"
  defines "h6 \<equiv> update_where h5 d (\<lambda>ix. 2 \<le> ix ! 2 \<and> ix ! 2 < 4)
               (\<lambda>ix v. exp v * expanded (anch\<lparr>shape := shape anch @ [1, 1]\<rparr>)
                                   [ix ! 0, ix ! 1, ix ! 2 - 2, ix ! 3, ix ! 4])"
  shows "h6 = h[stor x := map (\<lambda>ix. decoded anch stride (ix ! 1) (ix ! 2) (ix ! 3) (ix ! 4) (F ix))
                            (all_indices sh)]"
proof -
  let ?G = "\<lambda>ix. let v1 = (if ix ! 2 < 2 then sigmoid (F ix) else F ix);
                     v2 = (if 4 \<le> ix ! 2 then sigmoid v1 else v1);
                     v3 = (if ix ! 2 = 0
                           then v2 + expanded (fst (meshgrid_xy g)) [ix ! 0, ix ! 1, ix ! 3, ix ! 4]
                           else v2);
                     v4 = (if ix ! 2 = 1
                           then v3 + expanded (snd (meshgrid_xy g)) [ix ! 0, ix ! 1, ix ! 3, ix ! 4]
                           else v3);
                     v5 = (if ix ! 2 < 2 then v4 * real_of_int stride else v4)
                 in if 2 \<le> ix ! 2 \<and> ix ! 2 < 4
                    then exp v5 * expanded (anch\<lparr>shape := shape anch @ [1, 1]\<rparr>)
                                    [ix ! 0, ix ! 1, ix ! 2 - 2, ix ! 3, ix ! 4]
                    else v5"
  have "h6 = h[stor x := map ?G (all_indices sh)]"
    unfolding h6_def h5_def h4_def h3_def h2_def h1_def h0 d_def sh_def
    by (simp only: update_where_map [OF a] Let_def)
  also have "map ?G (all_indices sh) =
             map (\<lambda>ix. decoded anch stride (ix ! 1) (ix ! 2) (ix ! 3) (ix ! 4) (F ix)) (all_indices sh)"
  proof (rule map_cong [OF refl])
    fix ix assume "ix \<in> set (all_indices sh)"
    then have "ix \<in> {ix. list_all2 (<) ix sh}" by (simp only: set_all_indices)
    then have "list_all2 (<) ix [B, A, 5 + C, g, g]" by (simp add: sh_def)
    then obtain b a c r j where ix: "ix = [b, a, c, r, j]" and
      lt: "b < B" "a < A" "c < 5 + C" "r < g" "j < g" by (rule valid5E)
    consider "c = 0" | "c = 1" | "c = 2" | "c = 3" | "4 \<le> c" by linarith
    then show "?G ix = decoded anch stride (ix ! 1) (ix ! 2) (ix ! 3) (ix ! 4) (F ix)"
    proof cases
      case 1
      then show ?thesis using lt by (simp add: ix decoded_def expanded_x_offset)
    next
      case 2
      then show ?thesis using lt by (simp add: ix decoded_def expanded_y_offset)
    next
      case 3
      then show ?thesis
        using lt expanded_anchors [OF an lt(2), of 0] by (simp add: ix decoded_def)
    next
      case 4
      then show ?thesis
        using lt expanded_anchors [OF an lt(2), of 1] by (simp add: ix decoded_def)
    next
      case 5
      then show ?thesis using lt by (simp add: ix decoded_def)
    qed
  qed
  finally show ?thesis .
qed


lemma DetectionLayer_forward_std:
  fixes B A C g :: nat and h :: heap and x :: tref and anch :: "real tensor" and w :: int
  assumes sx: "std h x" and shx: "tshape x = [B, A * (5 + C), g, g]"
      and pos: "0 < B" "0 < A" "0 < g"
      and an: "shape anch = [A, 2]"
  defines "sh \<equiv> [B, A, 5 + C, g, g]"
  defines "d \<equiv> \<lparr>stor = stor x, tshape = sh, tstrides = row_major sh\<rparr>"
  defines "h' \<equiv> h[stor x := map (\<lambda>ix. decoded anch (w div int g) (ix ! 1) (ix ! 2) (ix ! 3) (ix ! 4)
                                          (tget h d ix)) (all_indices sh)]"
  defines "td \<equiv> \<lparr>stor = stor x, tshape = swap12 sh, tstrides = swap12 (row_major sh)\<rparr>"
  shows "DetectionLayer_forward (DetectionLayer anch (int C) A w) x h =
           (if A = 1
            then Inr (\<lparr>stor = stor x, tshape = [B, g * g, 5 + C],
                       tstrides = [(5 + C) * (g * g), 1, g * g]\<rparr>, h')
            else Inr (\<lparr>stor = length h, tshape = [B, A * g * g, 5 + C],
                       tstrides = [(5 + C) * (A * g * g), 1, A * g * g]\<rparr>,
                      h' @ [map (tget h' td) (all_indices (swap12 sh))]))"
proof -
  have a: "stor x < length h" using sx by (simp add: std_def)
  have sd: "std h d"
    using sx shx by (simp add: std_def d_def sh_def mult_ac)
  have s0: "size_dim x 0 = Inr B" and s2: "size_dim x 2 = Inr g"
    using shx by (simp_all add: size_dim_def)
  have "infer_size (map int sh) (prod_list (tshape x)) = Inr sh"
    by (rule infer_size_exact) (simp add: shx sh_def mult_ac)
  then have "infer_size [int B, int A, int C + 5, int g, int g] (prod_list (tshape x)) = Inr sh"
    by (simp add: sh_def add.commute)
  then have v1: "view x [int B, int A, int C + 5, int g, int g] = Inr d"
    using sx unfolding d_def by (intro view_std) (simp_all add: std_def)
  have hh: "h = h[stor x := map (tget h d) (all_indices [B, A, 5 + C, g, g])]"
    using std_storage [OF sd] by (simp add: d_def sh_def)
  note upd = detection_updates [where F = "tget h d" and stride = "w div int g" and h0 = h,
      OF a pos(3) an hh, folded sh_def, folded d_def, folded h'_def]
  have g0: "(g = 0) = False" using pos by simp
  have c2: "(tshape d ! 2 < 2) = False" by (simp add: d_def sh_def)
  have ex: "(\<not> expandable (shape (anch\<lparr>shape := shape anch @ [1, 1]\<rparr>))
               [tshape d ! 0, tshape d ! 1, min 2 (tshape d ! 2 - 2), tshape d ! 3, tshape d ! 4])
             = False"
    using an by (simp add: expandable_def d_def sh_def)
  have t1: "transpose12 d = Inr td"
    by (simp add: transpose12_def d_def td_def sh_def)
  have main: "DetectionLayer_forward (DetectionLayer anch (int C) A w) x h =
                and_then (view (fst (contiguous h' td)) [int B, int C + 5, - 1]) (\<lambda>t.
                and_then (transpose12 t) (\<lambda>detection. Inr (detection, snd (contiguous h' td))))"
    unfolding DetectionLayer_forward_def
    by (simp only: layer.sel s0 s2 and_then_Inr g0 if_False v1 Let_def split_def c2 ex upd t1)
  have c: "is_contiguous td \<longleftrightarrow> A = 1"
    unfolding td_def sh_def using pos by (intro transposed_contiguous) simp_all
  show ?thesis
  proof (cases "A = 1")
    case True
    then have ct: "contiguous h' td = (td, h')" using c by (simp add: contiguous_def)
    have "infer_size [int B, int C + 5, - 1] (prod_list (tshape td)) = Inr [B, 5 + C, g * g]"
      using pos True by (intro infer_size_last) (simp_all add: td_def sh_def swap12_def)
    then have v2: "view td [int B, int C + 5, - 1] =
                     Inr \<lparr>stor = stor x, tshape = [B, 5 + C, g * g],
                          tstrides = row_major [B, 5 + C, g * g]\<rparr>"
      using c True by (simp add: view_def td_def)
    show ?thesis
      unfolding main ct fst_conv snd_conv v2 and_then_Inr
      using True by (simp add: transpose12_def swap12_def)
  next
    case False
    let ?v = "contents h' td"
    let ?t = "\<lparr>stor = length h', tshape = shape ?v, tstrides = row_major (shape ?v)\<rparr>"
    have ct: "contiguous h' td = (?t, h' @ [data ?v])"
      using False c by (simp add: contiguous_def alloc_def)
    have lh: "length h' = length h" by (simp add: h'_def)
    have "infer_size [int B, int C + 5, - 1] (prod_list (tshape ?t)) = Inr [B, 5 + C, A * g * g]"
      using pos by (intro infer_size_last) (simp_all add: contents_def td_def sh_def swap12_def)
    then have v2: "view ?t [int B, int C + 5, - 1] =
                     Inr \<lparr>stor = length h, tshape = [B, 5 + C, A * g * g],
                          tstrides = row_major [B, 5 + C, A * g * g]\<rparr>"
      using lh by (simp add: view_def is_contiguous_row_major)
    show ?thesis
      unfolding main ct fst_conv snd_conv v2 and_then_Inr
      using False
      by (simp add: transpose12_def swap12_def contents_def td_def sh_def)
  qed
qed

lemma decoded_storage_nth:
  fixes B A C g :: nat and h :: heap and x :: tref
  assumes sx: "std h x" and shx: "tshape x = [B, A * (5 + C), g, g]"
      and lt: "b < B" "a < A" "c < 5 + C" "r < g" "j < g"
  defines "sh \<equiv> [B, A, 5 + C, g, g]"
  defines "d \<equiv> \<lparr>stor = stor x, tshape = sh, tstrides = row_major sh\<rparr>"
  shows "map (\<lambda>ix. decoded anch s (ix ! 1) (ix ! 2) (ix ! 3) (ix ! 4) (tget h d ix)) (all_indices sh)
           ! ravel sh [b, a, c, r, j] =
         decoded anch s a c r j (tget h x [b, a * (5 + C) + c, r, j])"
proof -
  have v: "list_all2 (<) [b, a, c, r, j] sh" using lt by (simp add: sh_def)
  have sd: "std h d" using sx shx by (simp add: std_def d_def sh_def mult_ac)
  have "tget h d [b, a, c, r, j] = (h ! stor x) ! ravel sh [b, a, c, r, j]"
    using tget_std [OF sd] by (simp add: d_def)
  also have "ravel sh [b, a, c, r, j] = ravel (tshape x) [b, a * (5 + C) + c, r, j]"
    by (simp add: sh_def shx algebra_simps)
  also have "(h ! stor x) ! \<dots> = tget h x [b, a * (5 + C) + c, r, j]"
    using tget_std [OF sx] by simp
  finally have e: "tget h d [b, a, c, r, j] = tget h x [b, a * (5 + C) + c, r, j]" .
  show ?thesis
    using nth_all_indices [OF v] by (simp add: e)
qed

text \<open>
  C2. On a contiguous input of shape \<open>[batch, anchors \<times> (5 + classes), grid, grid]\<close> with
  at least one batch entry, one anchor and one cell, the detection layer returns a tensor
  of shape \<open>[batch, anchors \<times> grid \<times> grid, 5 + classes]\<close>. Its element for batch
  entry \<open>b\<close>, anchor \<open>a\<close>, row \<open>r\<close>, column \<open>j\<close> and channel \<open>c\<close> is the decoded
  value of the raw element of channel \<open>a \<times> (5 + classes) + c\<close> at that cell: the sigmoid
  plus the column (channel 0) or the row (channel 1), times the input dimension divided
  by the grid size with \<^verbatim>\<open>//\<close>; the exponential times the anchor's width (channel 2) or
  height (channel 3), without sigmoid; the sigmoid alone from channel 4 on. Elements are
  real numbers here, not 32-bit floats.
\<close>

theorem detection_decode:
  fixes B A C g :: nat and h :: heap and x :: tref and anch :: "real tensor" and w :: int
  assumes sx: "std h x" and shx: "tshape x = [B, A * (5 + C), g, g]"
      and pos: "0 < B" "0 < A" "0 < g"
      and an: "shape anch = [A, 2]"
  shows "\<exists>out h'. DetectionLayer_forward (DetectionLayer anch (int C) A w) x h = Inr (out, h') \<and>
           tshape out = [B, A * g * g, 5 + C] \<and>
           (\<forall>b<B. \<forall>a<A. \<forall>r<g. \<forall>j<g. \<forall>c<5 + C.
              tget h' out [b, (a * g + r) * g + j, c] =
                decoded anch (w div int g) a c r j (tget h x [b, a * (5 + C) + c, r, j]))"
proof -
  define sh where "sh = [B, A, 5 + C, g, g]"
  define d where "d = \<lparr>stor = stor x, tshape = sh, tstrides = row_major sh\<rparr>"
  define S where "S = map (\<lambda>ix. decoded anch (w div int g) (ix ! 1) (ix ! 2) (ix ! 3) (ix ! 4)
                                  (tget h d ix)) (all_indices sh)"
  define td where "td = \<lparr>stor = stor x, tshape = swap12 sh, tstrides = swap12 (row_major sh)\<rparr>"
  have a: "stor x < length h" using sx by (simp add: std_def)
  note fw = DetectionLayer_forward_std [OF sx shx pos an, of w,
      folded sh_def, folded d_def, folded S_def, folded td_def]
  have S: "\<And>b a c r j. b < B \<Longrightarrow> a < A \<Longrightarrow> c < 5 + C \<Longrightarrow> r < g \<Longrightarrow> j < g \<Longrightarrow>
             S ! ravel sh [b, a, c, r, j] =
               decoded anch (w div int g) a c r j (tget h x [b, a * (5 + C) + c, r, j])"
    unfolding S_def d_def sh_def by (rule decoded_storage_nth [OF sx shx])
  show ?thesis
  proof (cases "A = 1")
    case True
    let ?out = "\<lparr>stor = stor x, tshape = [B, g * g, 5 + C],
                 tstrides = [(5 + C) * (g * g), 1, g * g]\<rparr>"
    have f: "DetectionLayer_forward (DetectionLayer anch (int C) A w) x h = Inr (?out, h[stor x := S])"
      using fw True by simp
    have "tget (h[stor x := S]) ?out [b, (a * g + r) * g + j, c] =
            decoded anch (w div int g) a c r j (tget h x [b, a * (5 + C) + c, r, j])"
      if lt: "b < B" "a < A" "r < g" "j < g" "c < 5 + C" for b a r j c
    proof -
      have a0: "a = 0" using lt True by simp
      have "offset (tstrides ?out) [b, (a * g + r) * g + j, c] = ravel sh [b, a, c, r, j]"
        using True by (simp add: offset_def sh_def a0 algebra_simps)
      then show ?thesis
        using a S [OF lt(1,2,5,3,4)] by (simp add: tget_def)
    qed
    then show ?thesis using f True by auto
  next
    case False
    let ?out = "\<lparr>stor = length h, tshape = [B, A * g * g, 5 + C],
                 tstrides = [(5 + C) * (A * g * g), 1, A * g * g]\<rparr>"
    let ?h = "h[stor x := S] @ [map (tget (h[stor x := S]) td) (all_indices (swap12 sh))]"
    have f: "DetectionLayer_forward (DetectionLayer anch (int C) A w) x h = Inr (?out, ?h)"
      using fw False by simp
    have "tget ?h ?out [b, (a * g + r) * g + j, c] =
            decoded anch (w div int g) a c r j (tget h x [b, a * (5 + C) + c, r, j])"
      if lt: "b < B" "a < A" "r < g" "j < g" "c < 5 + C" for b a r j c
    proof -
      have v: "list_all2 (<) [b, c, a, r, j] (swap12 sh)"
        using lt by (simp add: sh_def swap12_def)
      have o1: "offset (tstrides ?out) [b, (a * g + r) * g + j, c] = ravel (swap12 sh) [b, c, a, r, j]"
        by (simp add: offset_def sh_def swap12_def algebra_simps)
      have o2: "offset (tstrides td) [b, c, a, r, j] = ravel sh [b, a, c, r, j]"
        by (simp add: offset_def td_def sh_def swap12_def algebra_simps)
      have "tget ?h ?out [b, (a * g + r) * g + j, c] =
              map (tget (h[stor x := S]) td) (all_indices (swap12 sh)) ! ravel (swap12 sh) [b, c, a, r, j]"
        by (simp only: tget_def o1) (simp add: nth_append)
      also have "\<dots> = tget (h[stor x := S]) td [b, c, a, r, j]"
        using nth_all_indices [OF v] by simp
      also have "\<dots> = S ! ravel sh [b, a, c, r, j]"
        using a by (simp only: tget_def o2) (simp add: td_def)
      finally show ?thesis using S [OF lt(1,2,5,3,4)] by simp
    qed
    then show ?thesis using f by auto
  qed
qed

text \<open>
  The instance of one anchor \<open>(10, 13)\<close>, one class and a grid of one cell, at input
  dimension 416: the decoded centre is \<open>sigmoid raw_x \<times> 416\<close> and the decoded width
  \<open>exp raw_w \<times> 10\<close>.
\<close>

theorem detection_decode_witness:
  "\<exists>out h'.
     DetectionLayer_forward (DetectionLayer \<lparr>shape = [1, 2], data = [10, 13]\<rparr> 1 1 416)
       \<lparr>stor = 0, tshape = [1, 6, 1, 1], tstrides = [6, 1, 1, 1]\<rparr> [[1, 0, 2, 0, 0, 0]] = Inr (out, h') \<and>
     tshape out = [1, 1, 6] \<and>
     tget h' out [0, 0, 0] = sigmoid 1 * 416 \<and>
     tget h' out [0, 0, 2] = exp 2 * 10"
proof -
  let ?x = "\<lparr>stor = 0, tshape = [1, 6, 1, 1], tstrides = [6, 1, 1, 1]\<rparr>"
  let ?h = "[[1, 0, 2, 0, 0, 0]] :: heap"
  let ?anch = "\<lparr>shape = [1, 2], data = [10, 13]\<rparr> :: real tensor"
  have sx: "std ?h ?x" by (simp add: std_def)
  have shx: "tshape ?x = [1, 1 * (5 + 1), 1, 1]" by simp
  have an: "shape ?anch = [1, 2]" by simp
  from detection_decode [OF sx shx _ _ _ an, of 416]
  obtain out h' where
    f: "DetectionLayer_forward (DetectionLayer ?anch (int 1) 1 416) ?x ?h = Inr (out, h')" and
    s: "tshape out = [1, 1 * 1 * 1, 5 + 1]" and
    e: "\<forall>b<1. \<forall>a<1. \<forall>r<1. \<forall>j<1. \<forall>c<5 + 1.
          tget h' out [b, (a * 1 + r) * 1 + j, c] =
            decoded ?anch (416 div int 1) a c r j (tget ?h ?x [b, a * (5 + 1) + c, r, j])"
    by auto
  from e have "tget h' out [0, 0, 0] = decoded ?anch 416 0 0 0 0 (tget ?h ?x [0, 0, 0, 0])"
    and "tget h' out [0, 0, 2] = decoded ?anch 416 0 2 0 0 (tget ?h ?x [0, 2, 0, 0])"
    by (auto dest!: spec [of _ 0])
  then have "tget h' out [0, 0, 0] = sigmoid 1 * 416" and "tget h' out [0, 0, 2] = exp 2 * 10"
    by (simp_all add: decoded_def tget_def offset_def)
  with f s show ?thesis by auto
qed

section \<open>Properties of concatenation and of the route layer\<close>

lemma take_drop_concat_blocks:
  assumes "\<And>i. i < n \<Longrightarrow> length (f i) = p" "i < n"
  shows "take p (drop (i * p) (concat (map f [0..<n]))) = f i"
proof (rule nth_equalityI)
  have meq: "map (\<lambda>x. length (f x)) [0..<n] = map (\<lambda>x. p) [0..<n]"
    using assms(1) by (intro map_cong) simp_all
  have "length (concat (map f [0..<n])) = sum_list (map (\<lambda>x. length (f x)) [0..<n])"
    by (simp add: length_concat comp_def)
  also have "\<dots> = sum_list (map (\<lambda>x. p) [0..<n])" by (simp only: meq)
  also have "\<dots> = n * p" by (simp add: sum_list_triv)
  finally have len: "length (concat (map f [0..<n])) = n * p" .
  have "Suc i * p \<le> n * p" using assms(2) by (intro mult_le_mono1) simp
  then have le: "i * p + p \<le> n * p" by simp
  show l: "length (take p (drop (i * p) (concat (map f [0..<n])))) = length (f i)"
    using le assms by (simp add: len)
  fix k assume "k < length (take p (drop (i * p) (concat (map f [0..<n]))))"
  then have k: "k < p" using l assms by simp
  have "take p (drop (i * p) (concat (map f [0..<n]))) ! k = concat (map f [0..<n]) ! (i * p + k)"
  proof -
    have "i * p \<le> n * p" using le by linarith
    then have "i * p \<le> length (concat (map f [0..<n]))" by (simp only: len)
    then show ?thesis using k by (simp add: nth_drop)
  qed
  also have "\<dots> = f i ! k" using assms k by (intro nth_concat_blocks) simp_all
  finally show "take p (drop (i * p) (concat (map f [0..<n]))) ! k = f i ! k" .
qed

lemma concat_chunks:
  assumes "length xs = n * p"
  shows "concat (map (\<lambda>b. take p (drop (b * p) xs)) [0..<n]) = xs"
proof (rule nth_equalityI)
  have bl: "\<And>b. b < n \<Longrightarrow> length (take p (drop (b * p) xs)) = p"
  proof -
    fix b assume "b < n"
    then have "Suc b * p \<le> n * p" by (intro mult_le_mono1) simp
    then show "length (take p (drop (b * p) xs)) = p" using assms by simp
  qed
  have meq: "map (\<lambda>b. length (take p (drop (b * p) xs))) [0..<n] = map (\<lambda>x. p) [0..<n]"
    using bl by (intro map_cong) simp_all
  have "length (concat (map (\<lambda>b. take p (drop (b * p) xs)) [0..<n])) =
          sum_list (map (\<lambda>b. length (take p (drop (b * p) xs))) [0..<n])"
    by (simp add: length_concat comp_def)
  also have "\<dots> = sum_list (map (\<lambda>x. p) [0..<n])" by (simp only: meq)
  also have "\<dots> = n * p" by (simp add: sum_list_triv)
  finally show len: "length (concat (map (\<lambda>b. take p (drop (b * p) xs)) [0..<n])) = length xs"
    using assms by simp
  fix k assume "k < length (concat (map (\<lambda>b. take p (drop (b * p) xs)) [0..<n]))"
  then have k: "k < n * p" using len assms by simp
  then have p: "0 < p" by (cases p) simp_all
  have d: "k div p < n" using k p by (simp add: less_mult_imp_div_less)
  have m: "k mod p < p" using p by simp
  have "concat (map (\<lambda>b. take p (drop (b * p) xs)) [0..<n]) ! (k div p * p + k mod p) =
          take p (drop (k div p * p) xs) ! (k mod p)"
    using bl d m by (intro nth_concat_blocks) simp_all
  also have "\<dots> = xs ! (k div p * p + k mod p)"
  proof -
    have "k div p * p \<le> length xs"
      using k assms by (metis div_times_less_eq_dividend less_imp_le order_trans)
    then show ?thesis using m by (simp add: nth_drop)
  qed
  finally show "concat (map (\<lambda>b. take p (drop (b * p) xs)) [0..<n]) ! k = xs ! k"
    by simp
qed

lemma tensor_full_contents [simp]: "tensor_full (contents h t)"
  by (simp add: tensor_full_def contents_def)

lemma length_batch_slice:
  assumes "tensor_full v" "shape v = B # rest" "b < B"
  shows "length (batch_slice v b) = prod_list rest"
proof -
  have "Suc b * prod_list rest \<le> B * prod_list rest"
    using assms(3) by (intro mult_le_mono1) simp
  then show ?thesis
    using assms by (simp add: batch_slice_def tensor_full_def Let_def)
qed

lemma cat1_single:
  assumes "tensor_full v" "2 \<le> length (shape v)"
  shows "cat1 [v] = Inr v"
proof -
  from assms(2) obtain B c rest where sh: "shape v = B # c # rest"
    by (cases "shape v"; cases "tl (shape v)") auto
  have "length (data v) = B * prod_list (c # rest)"
    using assms(1) by (simp add: tensor_full_def sh)
  from concat_chunks [OF this]
  have "concat (map (\<lambda>b. batch_slice v b) [0..<B]) = data v"
    by (simp add: batch_slice_def sh Let_def)
  then show ?thesis
    by (simp add: cat1_def sh)
qed

lemma cat1_skip:
  assumes "shape d = [0]" "shape v \<noteq> [0]"
  shows "cat1 [v, d] = cat1 [v]"
  using assms by (simp add: cat1_def)

lemma cat1_pair:
  assumes r: "cat1 [u, v] = Inr r"
      and full: "tensor_full u" "tensor_full v"
      and nd: "2 \<le> length (shape u)" "2 \<le> length (shape v)"
  shows "shape r = (shape u)[1 := shape u ! 1 + shape v ! 1] \<and> tensor_full r \<and>
         hd (shape v) = hd (shape u) \<and>
         (\<forall>b<hd (shape u). batch_slice r b = batch_slice u b @ batch_slice v b)"
proof -
  from nd(1) obtain B c rest where su: "shape u = B # c # rest"
    by (cases "shape u"; cases "tl (shape u)") auto
  from nd(2) obtain B' c' rest' where sv: "shape v = B' # c' # rest'"
    by (cases "shape v"; cases "tl (shape v)") auto
  have ok: "B' = B \<and> rest' = rest" and
    rr: "r = \<lparr>shape = B # (c + c') # rest,
              data = concat (map (\<lambda>b. batch_slice u b @ batch_slice v b) [0..<B])\<rparr>"
    using r by (auto simp: cat1_def su sv split: if_splits)
  let ?f = "\<lambda>b. batch_slice u b @ batch_slice v b"
  let ?p = "(c + c') * prod_list rest"
  have bl: "\<And>b. b < B \<Longrightarrow> length (?f b) = ?p"
    using length_batch_slice [OF full(1) su] length_batch_slice [OF full(2) sv] ok
    by (simp add: algebra_simps)
  have sl: "\<And>b. b < B \<Longrightarrow> batch_slice r b = ?f b"
  proof -
    fix b assume b: "b < B"
    have "take ?p (drop (b * ?p) (concat (map ?f [0..<B]))) = ?f b"
      using bl b by (intro take_drop_concat_blocks) simp_all
    then show "batch_slice r b = ?f b" by (simp add: batch_slice_def rr Let_def)
  qed
  have meq: "map (\<lambda>b. length (?f b)) [0..<B] = map (\<lambda>x. ?p) [0..<B]"
    using bl by (intro map_cong) simp_all
  have "length (concat (map ?f [0..<B])) = sum_list (map (\<lambda>b. length (?f b)) [0..<B])"
    by (simp add: length_concat comp_def)
  also have "\<dots> = sum_list (map (\<lambda>x. ?p) [0..<B])" by (simp only: meq)
  also have "\<dots> = B * ?p" by (simp add: sum_list_triv)
  finally have "tensor_full r" by (simp add: tensor_full_def rr)
  then show ?thesis using sl ok by (simp add: rr su sv)
qed

lemma cat1_prepend_full:
  assumes r: "cat1 [y, d] = Inr r" and "tensor_full y" "tensor_full d" "2 \<le> length (shape y)"
  shows "tensor_full r"
proof (cases "shape d = [0]")
  case True
  with assms have "shape y \<noteq> [0]" by auto
  from r cat1_skip [OF True this] cat1_single [OF assms(2,4)] assms(2) show ?thesis by simp
next
  case False
  with assms have "shape y \<noteq> [0]" by auto
  with False r have "length (shape d) = length (shape y)"
    by (auto simp: cat1_def split: if_splits)
  with assms cat1_pair [OF r] show ?thesis by simp
qed

lemma hd_list_update_1: "2 \<le> length xs \<Longrightarrow> hd (xs[Suc 0 := v]) = hd xs"
  by (cases xs) simp_all

lemma stackedD:
  assumes "stacked ts r" "ts \<noteq> []"
  shows "tensor_full r" "2 \<le> length (shape r)"
    "shape r = (shape (hd ts))[1 := sum_list (map (\<lambda>t. shape t ! 1) ts)]"
    "\<And>b. b < hd (shape r) \<Longrightarrow> batch_slice r b = concat (map (\<lambda>t. batch_slice t b) ts)"
proof -
  note c = assms(1) [unfolded stacked_def if_not_P [OF assms(2)]]
  from c show "tensor_full r" by (rule conjunct1)
  from c show "2 \<le> length (shape r)" by (rule conjunct2 [THEN conjunct1])
  from c show "shape r = (shape (hd ts))[1 := sum_list (map (\<lambda>t. shape t ! 1) ts)]"
    by (rule conjunct2 [THEN conjunct2, THEN conjunct1])
  from c have "\<forall>b<hd (shape r). batch_slice r b = concat (map (\<lambda>t. batch_slice t b) ts)"
    by (rule conjunct2 [THEN conjunct2, THEN conjunct2])
  then show "\<And>b. b < hd (shape r) \<Longrightarrow>
    batch_slice r b = concat (map (\<lambda>t. batch_slice t b) ts)" by blast
qed

lemma stacked_prepend:
  assumes r: "cat1 [y, d] = Inr r" and st: "stacked ts d"
      and full: "tensor_full y" and l: "2 \<le> length (shape y)"
  shows "stacked (y # ts) r"
proof (cases "ts = []")
  case True
  with st have sd: "shape d = [0]" by (simp add: stacked_def)
  from l have "shape y \<noteq> [0]" by auto
  from r cat1_skip [OF sd this] cat1_single [OF full l] have "r = y" by simp
  with full l True show ?thesis by (simp add: stacked_def)
next
  case False
  note fd = stackedD(1) [OF st False] and ld = stackedD(2) [OF st False]
    and sd = stackedD(3) [OF st False] and bd = stackedD(4) [OF st False]
  from ld sd have d1: "shape d ! 1 = sum_list (map (\<lambda>t. shape t ! 1) ts)"
    by (metis One_nat_def Suc_1 Suc_le_lessD length_list_update nth_list_update_eq)
  from cat1_pair [OF r full fd l ld]
  have sr: "shape r = (shape y)[1 := shape y ! 1 + shape d ! 1]" and fr: "tensor_full r"
    and hh: "hd (shape d) = hd (shape y)"
    and br: "\<And>b. b < hd (shape y) \<Longrightarrow> batch_slice r b = batch_slice y b @ batch_slice d b"
    by simp_all
  from sr l have hr: "hd (shape r) = hd (shape y)" by (simp add: hd_list_update_1)
  from sr l have lr: "2 \<le> length (shape r)" by simp
  show ?thesis
    unfolding stacked_def using fr lr sr d1 hr hh br bd by simp
qed

lemma foldl_prepend_Inl:
  "foldl (\<lambda>acc y. and_then acc (\<lambda>d. cat1 [y, d])) (Inl e) ys = Inl e"
  by (induction ys) simp_all

lemma foldl_stacked:
  "foldl (\<lambda>acc y. and_then acc (\<lambda>d. cat1 [y, d])) (Inr d) ys = Inr r \<Longrightarrow>
   stacked ts d \<Longrightarrow> \<forall>y\<in>set ys. tensor_full y \<and> length (shape y) = 3 \<Longrightarrow>
   stacked (rev ys @ ts) r"
proof (induction ys arbitrary: d ts)
  case Nil
  then show ?case by simp
next
  case (Cons y ys)
  show ?case
  proof (cases "cat1 [y, d]")
    case (Inl e)
    with Cons.prems(1) show ?thesis by (simp add: foldl_prepend_Inl)
  next
    case (Inr d1)
    from Cons.prems(3) have "tensor_full y" "2 \<le> length (shape y)" by simp_all
    from stacked_prepend [OF Inr Cons.prems(2) this] have s1: "stacked (y # ts) d1" .
    from Cons.prems(1) Inr
    have "foldl (\<lambda>acc y. and_then acc (\<lambda>d. cat1 [y, d])) (Inr d1) ys = Inr r" by simp
    from Cons.IH [OF this s1] Cons.prems(3) show ?thesis by simp
  qed
qed

lemma data_batch_slices:
  assumes "tensor_full r" "shape r \<noteq> []"
  shows "data r = concat (map (batch_slice r) [0..<hd (shape r)])"
proof -
  from assms have "length (data r) = hd (shape r) * prod_list (tl (shape r))"
    by (cases "shape r") (simp_all add: tensor_full_def)
  moreover have "batch_slice r =
      (\<lambda>b. take (prod_list (tl (shape r))) (drop (b * prod_list (tl (shape r))) (data r)))"
    by (rule ext) (simp add: batch_slice_def Let_def)
  ultimately show ?thesis using concat_chunks [of "data r" "hd (shape r)" "prod_list (tl (shape r))"]
    by simp
qed

lemma stacked_spec_concat:
  assumes "stacked ts r"
  shows "r = spec_concat ts"
proof (cases "ts = []")
  case True
  with assms show ?thesis by (simp add: stacked_def spec_concat_def)
next
  case False
  note fr = stackedD(1) [OF assms False] and lr = stackedD(2) [OF assms False]
    and sr = stackedD(3) [OF assms False] and br = stackedD(4) [OF assms False]
  from lr have ne: "shape r \<noteq> []" by auto
  from sr lr have "2 \<le> length (shape (hd ts))" by (metis length_list_update)
  with sr have hr: "hd (shape r) = hd (shape (hd ts))" by (simp add: hd_list_update_1)
  have "data r = concat (map (batch_slice r) [0..<hd (shape r)])"
    by (rule data_batch_slices [OF fr ne])
  also have "map (batch_slice r) [0..<hd (shape r)] =
             map (\<lambda>b. concat (map (\<lambda>t. batch_slice t b) ts)) [0..<hd (shape r)]"
    by (rule map_cong) (simp_all add: br)
  finally have "data r = concat (map (\<lambda>b. concat (map (\<lambda>t. batch_slice t b) ts))
                                   [0..<hd (shape (hd ts))])"
    by (simp add: hr)
  with sr False show ?thesis by (simp add: spec_concat_def)
qed

lemma contents_alloc:
  assumes "tensor_full v" "alloc h v = (t, h')"
  shows "contents h' t = v \<and> std h' t \<and> stor t = length h \<and> h' = h @ [data v]"
proof -
  from assms(2) have t: "t = \<lparr>stor = length h, tshape = shape v, tstrides = row_major (shape v)\<rparr>"
    and h': "h' = h @ [data v]" by (simp_all add: alloc_def)
  have s: "std h' t" using assms(1) by (simp add: std_def t h' tensor_full_def)
  from contents_std [OF s] show ?thesis using s by (simp add: t h')
qed

lemma shape_contents [simp]: "shape (contents h t) = tshape t"
  by (simp add: contents_def)

lemma map_raise_length: "map_raise f xs = Inr ys \<Longrightarrow> length ys = length xs"
proof (induction xs arbitrary: ys)
  case Nil
  then show ?case by simp
next
  case (Cons x xs)
  then show ?case by (auto elim!: and_then_InrE)
qed

lemma route_indices_length:
  assumes "route_indices i b = Inr idxs"
  shows "length idxs = 1 \<or> length idxs = 2"
proof -
  from assms obtain layers where
    m: "map_raise (\<lambda>s. and_then (py_int s) (\<lambda>k. Inr (resolve i k)))
          (take 2 (split CHR '','' layers)) = Inr idxs"
    unfolding route_indices_def by (elim and_then_InrE)
  have "split CHR '','' layers \<noteq> []" by (rule split_not_Nil)
  then have "length (take 2 (split CHR '','' layers)) = 1 \<or> length (take 2 (split CHR '','' layers)) = 2"
    by (cases "split CHR '','' layers"; cases "tl (split CHR '','' layers)") auto
  then show ?thesis using map_raise_length [OF m] by simp
qed

lemma RouteLayer_forward_contents:
  assumes fw: "RouteLayer_forward idxs outputs h = Inr (t, h')"
      and len: "length idxs = 1 \<or> length idxs = 2"
  shows "\<exists>os. map_raise (py_nth outputs) idxs = Inr os \<and>
           ((\<forall>u\<in>set os. 2 \<le> length (tshape u)) \<longrightarrow>
              tshape t ! 1 = sum_list (map (\<lambda>u. tshape u ! 1) os) \<and>
              (\<forall>k<hd (tshape t). batch_slice (contents h' t) k =
                                       concat (map (\<lambda>u. batch_slice (contents h u) k) os)))"
proof -
  from fw obtain os v where
    os: "map_raise (py_nth outputs) idxs = Inr os" and
    v: "cat1 (map (contents h) os) = Inr v" and
    al: "alloc h v = (t, h')"
    unfolding RouteLayer_forward_def by (elim and_then_InrE) auto
  have lo: "length os = 1 \<or> length os = 2"
    using map_raise_length [OF os] len by simp
  have "tshape t ! 1 = sum_list (map (\<lambda>u. tshape u ! 1) os) \<and>
        (\<forall>k<hd (tshape t). batch_slice (contents h' t) k =
                                 concat (map (\<lambda>u. batch_slice (contents h u) k) os))"
    if nd: "\<forall>u\<in>set os. 2 \<le> length (tshape u)"
  proof -
    from lo show ?thesis
    proof
      assume "length os = 1"
      then obtain o1 where o1: "os = [o1]" by (cases os) auto
      have "cat1 [contents h o1] = Inr (contents h o1)"
        using nd by (intro cat1_single) (simp_all add: o1)
      then have vv: "v = contents h o1" using v by (simp add: o1)
      have "tensor_full v" by (simp add: vv)
      from contents_alloc [OF this al] have "contents h' t = v" by blast
      moreover have "tshape t = shape v" using al by (auto simp: alloc_def)
      ultimately show ?thesis by (simp add: o1 vv)
    next
      assume "length os = 2"
      then obtain o1 o2 where o12: "os = [o1, o2]"
        by (cases os; cases "tl os") auto
      have c: "cat1 [contents h o1, contents h o2] = Inr v" using v by (simp add: o12)
      note p = cat1_pair [OF c]
      have pp: "shape v = (tshape o1)[1 := tshape o1 ! 1 + tshape o2 ! 1]" "tensor_full v"
        "\<forall>b<hd (tshape o1). batch_slice v b =
            batch_slice (contents h o1) b @ batch_slice (contents h o2) b"
        using p nd by (simp_all add: o12)
      from contents_alloc [OF pp(2) al] have cv: "contents h' t = v" by blast
      have ts: "tshape t = shape v" using al by (auto simp: alloc_def)
      from nd obtain B c rest where s1: "tshape o1 = B # c # rest"
        by (cases "tshape o1"; cases "tl (tshape o1)") (auto simp: o12)
      show ?thesis
        using pp(1,3) by (simp add: cv ts o12 s1)
    qed
  qed
  with os show ?thesis by blast
qed

lemma cat1_spec_concat:
  assumes v: "cat1 ts = Inr v" and len: "length ts = 1 \<or> length ts = 2"
      and ok: "\<forall>u\<in>set ts. tensor_full u \<and> 2 \<le> length (shape u)"
  shows "v = spec_concat ts \<and> tensor_full v"
proof -
  have e: "stacked [] \<lparr>shape = [0], data = []\<rparr>" by (simp add: stacked_def)
  have one: "stacked [u] u" if "tensor_full u" "2 \<le> length (shape u)" for u :: "real tensor"
  proof -
    from that have "shape u \<noteq> [0]" by auto
    from cat1_skip [of "\<lparr>shape = [0], data = []\<rparr>" u] this cat1_single [OF that]
    have "cat1 [u, \<lparr>shape = [0], data = []\<rparr>] = Inr u" by simp
    from stacked_prepend [OF this e that] show ?thesis .
  qed
  from len show ?thesis
  proof
    assume "length ts = 1"
    then obtain u where ts: "ts = [u]" by (cases ts) auto
    with ok have u: "tensor_full u" "2 \<le> length (shape u)" by simp_all
    from v cat1_single [OF u] have "v = u" by (simp add: ts)
    with one [OF u] u(1) show ?thesis by (simp add: ts stacked_spec_concat)
  next
    assume "length ts = 2"
    then obtain u w where ts: "ts = [u, w]" by (cases ts; cases "tl ts") auto
    with ok have u: "tensor_full u" "2 \<le> length (shape u)"
      and w: "tensor_full w" "2 \<le> length (shape w)" by simp_all
    from v have "cat1 [u, w] = Inr v" by (simp add: ts)
    from stacked_prepend [OF this one [OF w] u] have "stacked [u, w] v" .
    from stacked_spec_concat [OF this] stackedD(1) [OF this] show ?thesis
      by (simp add: ts)
  qed
qed

lemma RouteLayer_forward_value:
  assumes fw: "RouteLayer_forward idxs outputs h = Inr (t, h')"
      and len: "length idxs = 1 \<or> length idxs = 2"
  shows "\<exists>os. map_raise (py_nth outputs) idxs = Inr os \<and> stor t = length h \<and>
           ((\<forall>u\<in>set os. 2 \<le> length (tshape u)) \<longrightarrow>
              contents h' t = spec_concat (map (contents h) os) \<and> std h' t \<and>
              h' = h @ [data (spec_concat (map (contents h) os))])"
proof -
  from fw obtain os v where
    os: "map_raise (py_nth outputs) idxs = Inr os" and
    v: "cat1 (map (contents h) os) = Inr v" and
    al: "alloc h v = (t, h')"
    unfolding RouteLayer_forward_def by (elim and_then_InrE) auto
  have lo: "length (map (contents h) os) = 1 \<or> length (map (contents h) os) = 2"
    using map_raise_length [OF os] len by simp
  from al have st: "stor t = length h" by (auto simp: alloc_def)
  have "contents h' t = spec_concat (map (contents h) os) \<and> std h' t \<and>
        h' = h @ [data (spec_concat (map (contents h) os))]"
    if nd: "\<forall>u\<in>set os. 2 \<le> length (tshape u)"
  proof -
    from nd have "\<forall>u\<in>set (map (contents h) os). tensor_full u \<and> 2 \<le> length (shape u)"
      by simp
    from cat1_spec_concat [OF v lo this]
    have vv: "v = spec_concat (map (contents h) os)" and "tensor_full v" by blast+
    from contents_alloc [OF this(2) al, unfolded vv] show ?thesis by blast
  qed
  with os st show ?thesis by blast
qed

text \<open>
  C3. Let the blocks before position \<open>i\<close> build, and let a route block at position \<open>i\<close>
  build after them, with resolved indices \<open>idxs\<close> (one or two, negative ones having had
  \<open>i\<close> added). Then the module is the route layer of these indices, and the output
  channel count recorded for the block is the sum of the counts recorded at the indices:
  the one count for one index, the sum of the two for two. When the layer runs on a
  history, its result is a new tensor object with a storage of its own, appended to the
  heap, and for referenced entries of at least two dimensions its value is their
  concatenation along dimension 1 in the order listed: the shape of the first entry with
  the sizes of dimension 1 added up, and, for each batch entry, the elements of the
  referenced entries one after the other.
\<close>

theorem route_block:
  assumes pre: "build_network init (ni # pre) = Inr st"
      and ty: "getitem b ''type'' = Inr ''route''"
      and ri: "route_indices (length pre) b = Inr idxs"
      and bld: "build_network init (ni # pre @ [b]) = Inr st'"
      and fw: "RouteLayer_forward idxs outputs h = Inr (t, h')"
  shows "module_list st' = module_list st @ [[RouteLayer idxs]] \<and>
         (length idxs = 1 \<or> length idxs = 2) \<and>
         (\<exists>cs. map_raise (py_nth (out_channels st)) idxs = Inr cs \<and>
               out_channels st' = out_channels st @ [sum_list cs]) \<and>
         (\<exists>os. map_raise (py_nth outputs) idxs = Inr os \<and> stor t = length h \<and>
           ((\<forall>u\<in>set os. 2 \<le> length (tshape u)) \<longrightarrow>
              contents h' t = spec_concat (map (contents h) os) \<and> std h' t \<and>
              h' = h @ [data (spec_concat (map (contents h) os))] \<and>
              tshape t ! 1 = sum_list (map (\<lambda>u. tshape u ! 1) os) \<and>
              (\<forall>k<hd (tshape t). batch_slice (contents h' t) k =
                                       concat (map (\<lambda>u. batch_slice (contents h u) k) os))))"
proof -
  have bb: "build_block init ni (length pre) b st = build_route (length pre) b st"
    using build_block_type(4) [OF ty] by simp
  have br: "build_route (length pre) b st =
              and_then (map_raise (py_nth (out_channels st)) idxs) (\<lambda>cs.
                Inr ([RouteLayer idxs], sum_list cs))"
    by (simp add: build_route_indices ri)
  from bld have "and_then (map_raise (py_nth (out_channels st)) idxs) (\<lambda>cs.
           Inr \<lparr>in_channel = sum_list cs, out_channel = sum_list cs,
                out_channels = out_channels st @ [sum_list cs],
                module_list = module_list st @ [[RouteLayer idxs]]\<rparr>) = Inr st'"
    by (cases "map_raise (py_nth (out_channels st)) idxs")
       (simp_all add: build_network_snoc [OF pre] bb br)
  then obtain cs where cs: "map_raise (py_nth (out_channels st)) idxs = Inr cs" and
    st': "st' = \<lparr>in_channel = sum_list cs, out_channel = sum_list cs,
                out_channels = out_channels st @ [sum_list cs],
                module_list = module_list st @ [[RouteLayer idxs]]\<rparr>"
    by (auto elim!: and_then_InrE)
  note len = route_indices_length [OF ri]
  from RouteLayer_forward_contents [OF fw len] obtain os where
    os: "map_raise (py_nth outputs) idxs = Inr os" and
    a: "(\<forall>u\<in>set os. 2 \<le> length (tshape u)) \<longrightarrow>
          tshape t ! 1 = sum_list (map (\<lambda>u. tshape u ! 1) os) \<and>
          (\<forall>k<hd (tshape t). batch_slice (contents h' t) k =
                                   concat (map (\<lambda>u. batch_slice (contents h u) k) os))"
    by blast
  from RouteLayer_forward_value [OF fw len] os have
    b: "stor t = length h"
       "(\<forall>u\<in>set os. 2 \<le> length (tshape u)) \<longrightarrow>
          contents h' t = spec_concat (map (contents h) os) \<and> std h' t \<and>
          h' = h @ [data (spec_concat (map (contents h) os))]"
    by auto
  have m: "module_list st' = module_list st @ [[RouteLayer idxs]]"
    and oc: "out_channels st' = out_channels st @ [sum_list cs]"
    by (simp_all add: st')
  from m len cs oc os a b show ?thesis by blast
qed

lemma build_ex_state3:
  "build_network ex_init (ex_net # [ex_conv, ex_conv_bn] @ [ex_route ''-1, 0'']) = Inr ex_state3"
  by code_simp

lemma ex_route_forward:
  "RouteLayer_forward [1, 0] ex_outputs ex_heap =
     Inr (\<lparr>stor = 2, tshape = [1, 3, 1, 1], tstrides = [3, 1, 1, 1]\<rparr>, [[1, 2], [3], [3, 1, 2]])"
  by code_simp

theorem route_block_witness:
  "module_list ex_state3 = module_list ex_state2 @ [[RouteLayer [1, 0]]] \<and>
   out_channels ex_state3 = out_channels ex_state2 @ [1 + 2] \<and>
   contents [[1, 2], [3], [3, 1, 2]]
     \<lparr>stor = 2, tshape = [1, 3, 1, 1], tstrides = [3, 1, 1, 1]\<rparr> =
     \<lparr>shape = [1, 3, 1, 1], data = [3, 1, 2]\<rparr> \<and>
   [[1, 2], [3], [3, 1, 2]] = ex_heap @ [[3, 1, 2]] \<and>
   tshape \<lparr>stor = 2, tshape = [1, 3, 1, 1], tstrides = [3, 1, 1, 1]\<rparr> ! 1 = 1 + 2 \<and>
   batch_slice (contents [[1, 2], [3], [3, 1, 2]]
                  \<lparr>stor = 2, tshape = [1, 3, 1, 1], tstrides = [3, 1, 1, 1]\<rparr>) 0 =
     batch_slice (contents ex_heap (ex_outputs ! 1)) 0 @
     batch_slice (contents ex_heap (ex_outputs ! 0)) 0"
proof -
  have pre: "build_network ex_init (ex_net # [ex_conv, ex_conv_bn]) = Inr ex_state2"
    using build_ex_state2 by simp
  have ty: "getitem (ex_route ''-1, 0'') ''type'' = Inr ''route''" by code_simp
  have ri: "route_indices (length [ex_conv, ex_conv_bn]) (ex_route ''-1, 0'') = Inr [1, 0]"
    by code_simp
  have cs: "map_raise (py_nth (out_channels ex_state2)) [1, 0] = Inr [1, 2]" by code_simp
  have os: "map_raise (py_nth ex_outputs) [1, 0] = Inr [ex_outputs ! 1, ex_outputs ! 0]"
    by code_simp
  have nd: "\<forall>u\<in>set [ex_outputs ! 1, ex_outputs ! 0]. 2 \<le> length (tshape u)"
    by (simp add: ex_outputs_def)
  have sc: "spec_concat (map (contents ex_heap) [ex_outputs ! 1, ex_outputs ! 0]) =
              \<lparr>shape = [1, 3, 1, 1], data = [3, 1, 2]\<rparr>"
    by code_simp
  let ?t = "\<lparr>stor = 2, tshape = [1, 3, 1, 1], tstrides = [3, 1, 1, 1]\<rparr> :: tref"
  let ?h = "[[1, 2], [3], [3, 1, 2]] :: heap"
  let ?os = "[ex_outputs ! 1, ex_outputs ! 0]"
  note r = route_block [OF pre ty ri build_ex_state3 ex_route_forward]
  from r have m: "module_list ex_state3 = module_list ex_state2 @ [[RouteLayer [1, 0]]]"
    by (rule conjunct1)
  from r cs have oc: "out_channels ex_state3 = out_channels ex_state2 @ [1 + 2]" by auto
  from r os have "(\<forall>u\<in>set ?os. 2 \<le> length (tshape u)) \<longrightarrow>
      contents ?h ?t = spec_concat (map (contents ex_heap) ?os) \<and> std ?h ?t \<and>
      ?h = ex_heap @ [data (spec_concat (map (contents ex_heap) ?os))] \<and>
      tshape ?t ! 1 = sum_list (map (\<lambda>u. tshape u ! 1) ?os) \<and>
      (\<forall>k<hd (tshape ?t). batch_slice (contents ?h ?t) k =
                               concat (map (\<lambda>u. batch_slice (contents ex_heap u) k) ?os))"
    by auto
  with nd have c: "contents ?h ?t = spec_concat (map (contents ex_heap) ?os)"
    "?h = ex_heap @ [data (spec_concat (map (contents ex_heap) ?os))]"
    "\<forall>k<hd (tshape ?t). batch_slice (contents ?h ?t) k =
                               concat (map (\<lambda>u. batch_slice (contents ex_heap u) k) ?os)"
    by blast+
  from c(3) have bs: "batch_slice (contents ?h ?t) 0 =
     batch_slice (contents ex_heap (ex_outputs ! 1)) 0 @
     batch_slice (contents ex_heap (ex_outputs ! 0)) 0"
    by simp
  have t1: "tshape ?t ! 1 = 1 + 2" by simp
  from c(1) have c1: "contents ?h ?t = \<lparr>shape = [1, 3, 1, 1], data = [3, 1, 2]\<rparr>"
    unfolding sc .
  from c(2) have c2: "?h = ex_heap @ [[3, 1, 2]]" unfolding sc by simp
  from m oc c1 c2 t1 bs show ?thesis by blast
qed


section \<open>The forward pass\<close>


lemma step_library_frame:
  assumes "step_library lib mdl st = Inr st'"
  shows "fs_outputs st' = fs_outputs st \<and> fs_detection st' = fs_detection st \<and>
         stor (fs_x st') = length (fs_heap st) \<and>
         (\<exists>s. fs_heap st' = fs_heap st @ [s])"
  using assms unfolding step_library_def
  by (elim and_then_InrE) (auto simp: alloc_def)

lemma step_shortcut_InrE:
  assumes "step_shortcut mdl st = Inr st'"
  obtains k y hh where "mdl = [ShortcutLayer k]" "py_nth (fs_outputs st) k = Inr y"
    "iadd (fs_heap st) (fs_x st) y = Inr hh" "st' = st\<lparr>fs_heap := hh\<rparr>"
proof -
  from assms obtain k where m: "mdl = [ShortcutLayer k]"
    unfolding step_shortcut_def by (auto split: list.splits layer.splits)
  from assms obtain y hh where "py_nth (fs_outputs st) k = Inr y"
    "iadd (fs_heap st) (fs_x st) y = Inr hh" "st' = st\<lparr>fs_heap := hh\<rparr>"
    unfolding step_shortcut_def m ShortcutLayer_forward_def
    by (auto elim!: and_then_InrE)
  with m that show ?thesis by blast
qed

lemma step_route_frame:
  assumes "step_route mdl st = Inr st'"
  shows "fs_outputs st' = fs_outputs st \<and> fs_detection st' = fs_detection st \<and>
         stor (fs_x st') = length (fs_heap st) \<and>
         (\<exists>s. fs_heap st' = fs_heap st @ [s])"
proof -
  from assms obtain ks where m: "mdl = [RouteLayer ks]"
    unfolding step_route_def by (auto split: list.splits layer.splits)
  show ?thesis
    using assms unfolding step_route_def m RouteLayer_forward_def
    by (auto elim!: and_then_InrE simp: alloc_def)
qed

lemma step_yolo_InrE:
  assumes "step_yolo mdl st = Inr st'"
  obtains a nc na w x h v d h' where "mdl = [DetectionLayer a nc na w]"
    "DetectionLayer_forward (DetectionLayer a nc na w) (fs_x st) (fs_heap st) = Inr (x, h)"
    "cat1 [contents h x, contents h (fs_detection st)] = Inr v"
    "alloc h v = (d, h')"
    "st' = st\<lparr>fs_x := x, fs_heap := h', fs_detection := d\<rparr>"
proof -
  from assms obtain a nc na w where m: "mdl = [DetectionLayer a nc na w]"
    unfolding step_yolo_def by (auto split: list.splits layer.splits)
  from assms obtain x h v where
    "DetectionLayer_forward (DetectionLayer a nc na w) (fs_x st) (fs_heap st) = Inr (x, h)"
    "cat1 [contents h x, contents h (fs_detection st)] = Inr v"
    "st' = (let (d, h') = alloc h v in st\<lparr>fs_x := x, fs_heap := h', fs_detection := d\<rparr>)"
    unfolding step_yolo_def m
    by (auto elim!: and_then_InrE simp: Let_def split_def)
  with m that show ?thesis by (cases "alloc h v") auto
qed

lemma forward_step_InrE:
  assumes "forward_step lib b mdl st = Inr st'"
  obtains ty st1 where "getitem b ''type'' = Inr ty"
    "(if ty = ''convolutional'' \<or> ty = ''upsample'' then step_library lib mdl st
      else if ty = ''shortcut'' then step_shortcut mdl st
      else if ty = ''route'' then step_route mdl st
      else if ty = ''yolo'' then step_yolo mdl st
      else Inr st) = Inr st1"
    "st' = st1\<lparr>fs_outputs := fs_outputs st1 @ [fs_x st1]\<rparr>"
  using assms unfolding forward_step_def by (elim and_then_InrE) auto


lemma forward_step_outputs:
  assumes "forward_step lib b mdl st = Inr st'"
  shows "fs_outputs st' = fs_outputs st @ [fs_x st']"
proof -
  from assms obtain ty st1 where
    br: "(if ty = ''convolutional'' \<or> ty = ''upsample'' then step_library lib mdl st
      else if ty = ''shortcut'' then step_shortcut mdl st
      else if ty = ''route'' then step_route mdl st
      else if ty = ''yolo'' then step_yolo mdl st
      else Inr st) = Inr st1"
    and st': "st' = st1\<lparr>fs_outputs := fs_outputs st1 @ [fs_x st1]\<rparr>"
    by (rule forward_step_InrE)
  have "fs_outputs st1 = fs_outputs st"
  proof -
    consider (lib) "step_library lib mdl st = Inr st1" | (sc) "step_shortcut mdl st = Inr st1"
      | (rt) "step_route mdl st = Inr st1" | (yo) "step_yolo mdl st = Inr st1" | (other) "st1 = st"
      using br by (metis sum.inject(2))
    then show ?thesis
    proof cases
      case lib then show ?thesis using step_library_frame by blast
    next
      case sc then show ?thesis by (elim step_shortcut_InrE) simp
    next
      case rt then show ?thesis using step_route_frame by blast
    next
      case yo then show ?thesis by (elim step_yolo_InrE) simp
    next
      case other then show ?thesis by simp
    qed
  qed
  with st' show ?thesis by simp
qed

lemma forward_loop_outputs:
  "forward_loop lib bs ms st = Inr st' \<Longrightarrow>
     \<exists>others. fs_outputs st' = fs_outputs st @ others \<and> length others = length ms"
proof (induction lib bs ms st rule: forward_loop.induct)
  case (1 lib bs st)
  then show ?case by simp
next
  case (2 lib mdl mdls st)
  then show ?case by simp
next
  case (3 lib b bs mdl mdls st)
  from 3(2) obtain s1 where s1: "forward_step lib b mdl st = Inr s1"
    and rest: "forward_loop lib bs mdls s1 = Inr st'"
    by (auto elim: and_then_InrE)
  from 3(1)[OF rest] obtain others where
    o: "fs_outputs st' = fs_outputs s1 @ others" "length others = length mdls" by blast
  from forward_step_outputs[OF s1] o
  have "fs_outputs st' = fs_outputs st @ (fs_x s1 # others)" by simp
  with o(2) show ?case by (intro exI[of _ "fs_x s1 # others"]) simp
qed

lemma forward_loop_last:
  "forward_loop lib bs ms st = Inr st' \<Longrightarrow>
     ms \<noteq> [] \<or> (fs_outputs st \<noteq> [] \<and> fs_x st = last (fs_outputs st)) \<Longrightarrow>
     fs_outputs st' \<noteq> [] \<and> fs_x st' = last (fs_outputs st')"
proof (induction lib bs ms st rule: forward_loop.induct)
  case (1 lib bs st)
  then show ?case by simp
next
  case (2 lib mdl mdls st)
  then show ?case by simp
next
  case (3 lib b bs mdl mdls st)
  from 3(2) obtain s1 where s1: "forward_step lib b mdl st = Inr s1"
    and rest: "forward_loop lib bs mdls s1 = Inr st'"
    by (auto elim: and_then_InrE)
  from forward_step_outputs[OF s1]
  have "fs_outputs s1 \<noteq> [] \<and> fs_x s1 = last (fs_outputs s1)" by simp
  with 3(1)[OF rest] show ?case by blast
qed

lemma forward_init_outputs [simp]: "fs_outputs (forward_init v) = []"
  by (simp add: forward_init_def alloc_def)

lemma forward_step_shortcut:
  assumes "forward_step lib b mdl st = Inr st'" "getitem b ''type'' = Inr ''shortcut''"
  obtains k y hh where "mdl = [ShortcutLayer k]" "py_nth (fs_outputs st) k = Inr y"
    "iadd (fs_heap st) (fs_x st) y = Inr hh"
    "st' = st\<lparr>fs_heap := hh, fs_outputs := fs_outputs st @ [fs_x st]\<rparr>"
proof -
  from assms have "and_then (step_shortcut mdl st)
       (\<lambda>st. Inr (st\<lparr>fs_outputs := fs_outputs st @ [fs_x st]\<rparr>)) = Inr st'"
    by (simp add: forward_step_def)
  then obtain st1 where a: "step_shortcut mdl st = Inr st1"
    and b: "st' = st1\<lparr>fs_outputs := fs_outputs st1 @ [fs_x st1]\<rparr>"
    by (auto elim: and_then_InrE)
  from a obtain k y hh where "mdl = [ShortcutLayer k]" "py_nth (fs_outputs st) k = Inr y"
    "iadd (fs_heap st) (fs_x st) y = Inr hh" "st1 = st\<lparr>fs_heap := hh\<rparr>"
    by (rule step_shortcut_InrE)
  with b that show ?thesis by simp
qed

lemma iadd_std:
  assumes "iadd h x y = Inr hh" "std h x"
  shows "contents hh x =
           \<lparr>shape = tshape x,
            data = map (\<lambda>ix. tget h x ix + expanded (contents h y) ix) (all_indices (tshape x))\<rparr>"
proof -
  from assms(1) have hh: "hh = update_where h x (\<lambda>ix. True) (\<lambda>ix v. v + expanded (contents h y) ix)"
    by (auto simp: iadd_def split: if_splits)
  have s: "std hh x" unfolding hh by (rule std_update_where[OF assms(2)])
  from assms(2) have "stor x < length h" by (simp add: std_def)
  then show ?thesis
    unfolding contents_std[OF s] unfolding hh update_where_std[OF assms(2)] by simp
qed

text \<open>
  Claim C9. Let the first \<open>i\<close> modules have run from the initial state and given the state
  \<open>s\<close>, and let block \<open>i\<close> be a shortcut whose step succeeds with the state \<open>s'\<close>. Then
  \<open>i\<close> is not 0, the object \<open>x\<close> that the shortcut adds into is entry \<open>i - 1\<close> of the
  history, the step keeps this object as \<open>x\<close> and appends it, so that entries \<open>i - 1\<close> and
  \<open>i\<close> of the history are the same object after the step and in every later state \<open>s''\<close> of
  the pass; and, for an \<open>x\<close> that owns a contiguous storage, the value of entry \<open>i - 1\<close>
  after the step is the value of \<open>x\<close> before it plus the broadcast value of the tensor
  \<open>y\<close> that the shortcut module returns, not the value that layer \<open>i - 1\<close> put there.
\<close>

theorem shortcut_in_place:
  assumes run: "forward_loop lib (take i bs) (take i ms) (forward_init v) = Inr s"
      and i: "i < length ms"
      and ty: "getitem (bs ! i) ''type'' = Inr ''shortcut''"
      and step: "forward_step lib (bs ! i) (ms ! i) s = Inr s'"
      and later: "forward_loop lib bs' ms' s' = Inr s''"
  shows "0 < i \<and> length (fs_outputs s) = i \<and> fs_outputs s ! (i - 1) = fs_x s \<and>
         fs_x s' = fs_x s \<and>
         fs_outputs s' ! (i - 1) = fs_x s \<and> fs_outputs s' ! i = fs_x s \<and>
         fs_outputs s'' ! (i - 1) = fs_x s \<and> fs_outputs s'' ! i = fs_x s \<and>
         (\<exists>k y. ms ! i = [ShortcutLayer k] \<and> ShortcutLayer_forward k (fs_outputs s) = Inr y \<and>
            (std (fs_heap s) (fs_x s) \<longrightarrow>
               contents (fs_heap s') (fs_outputs s' ! (i - 1)) =
                 \<lparr>shape = tshape (fs_x s),
                  data = map (\<lambda>ix. tget (fs_heap s) (fs_x s) ix
                                     + expanded (contents (fs_heap s) y) ix)
                             (all_indices (tshape (fs_x s)))\<rparr>))"
proof -
  from forward_loop_outputs[OF run] i have len: "length (fs_outputs s) = i" by simp
  from step ty obtain k y hh where m: "ms ! i = [ShortcutLayer k]"
    and y: "py_nth (fs_outputs s) k = Inr y"
    and hh: "iadd (fs_heap s) (fs_x s) y = Inr hh"
    and s': "s' = s\<lparr>fs_heap := hh, fs_outputs := fs_outputs s @ [fs_x s]\<rparr>"
    by (rule forward_step_shortcut)
  have pos: "0 < i"
  proof (rule ccontr)
    assume "\<not> 0 < i"
    with len have "fs_outputs s = []" by simp
    with y show False by (auto simp: py_nth_range split: if_splits)
  qed
  with i have "take i ms \<noteq> []" by auto
  from forward_loop_last[OF run] this
  have lst: "fs_outputs s \<noteq> []" "fs_x s = last (fs_outputs s)" by blast+
  with len have prev: "fs_outputs s ! (i - 1) = fs_x s" by (simp add: last_conv_nth)
  from s' len prev pos have a: "fs_outputs s' ! (i - 1) = fs_x s" "fs_outputs s' ! i = fs_x s"
    "length (fs_outputs s') = Suc i"
    by (simp_all add: nth_append)
  from forward_loop_outputs[OF later] obtain others where
    "fs_outputs s'' = fs_outputs s' @ others" by blast
  with a have b: "fs_outputs s'' ! (i - 1) = fs_x s" "fs_outputs s'' ! i = fs_x s"
    by (simp_all add: nth_append)
  have c: "std (fs_heap s) (fs_x s) \<longrightarrow>
               contents (fs_heap s') (fs_outputs s' ! (i - 1)) =
                 \<lparr>shape = tshape (fs_x s),
                  data = map (\<lambda>ix. tget (fs_heap s) (fs_x s) ix
                                     + expanded (contents (fs_heap s) y) ix)
                             (all_indices (tshape (fs_x s)))\<rparr>"
    using iadd_std[OF hh] a(1) s' by simp
  from s' have "fs_x s' = fs_x s" by simp
  with pos len prev a b c m y show ?thesis
    unfolding ShortcutLayer_forward_def by blast
qed



lemma forward_step_type:
  assumes "getitem b ''type'' = Inr ty"
  shows "ty = ''convolutional'' \<or> ty = ''upsample'' \<Longrightarrow> forward_step lib b mdl st =
           and_then (step_library lib mdl st)
             (\<lambda>st. Inr (st\<lparr>fs_outputs := fs_outputs st @ [fs_x st]\<rparr>))"
    and "ty = ''shortcut'' \<Longrightarrow> forward_step lib b mdl st =
           and_then (step_shortcut mdl st)
             (\<lambda>st. Inr (st\<lparr>fs_outputs := fs_outputs st @ [fs_x st]\<rparr>))"
    and "ty = ''route'' \<Longrightarrow> forward_step lib b mdl st =
           and_then (step_route mdl st)
             (\<lambda>st. Inr (st\<lparr>fs_outputs := fs_outputs st @ [fs_x st]\<rparr>))"
    and "ty = ''yolo'' \<Longrightarrow> forward_step lib b mdl st =
           and_then (step_yolo mdl st)
             (\<lambda>st. Inr (st\<lparr>fs_outputs := fs_outputs st @ [fs_x st]\<rparr>))"
  using assms by (auto simp: forward_step_def)


lemma build_ex_modules_sc:
  "map_sum id module_list
     (build_network ex_init [ex_net, ex_conv, ex_conv_bn, ex_shortcut ''-2'']) = Inr ex_modules_sc"
  by code_simp

lemma ex_run_before:
  "forward_loop ex_lib [ex_conv, ex_conv_bn] (module_list ex_state2) (forward_init ex_in) =
     Inr ex_before"
proof -
  have t1: "getitem ex_conv ''type'' = Inr ''convolutional''" by code_simp
  have t2: "getitem ex_conv_bn ''type'' = Inr ''convolutional''" by code_simp
  have m: "module_list ex_state2 = [module_list ex_state2 ! 0, module_list ex_state2 ! 1]"
    by (simp add: ex_state2_def)
  have s1: "and_then (step_library ex_lib (module_list ex_state2 ! 0) (forward_init ex_in))
              (\<lambda>st. Inr (st\<lparr>fs_outputs := fs_outputs st @ [fs_x st]\<rparr>)) =
            Inr \<lparr>fs_heap = [[3], [], [4]],
                 fs_x = \<lparr>stor = 2, tshape = [1, 1, 1, 1], tstrides = [1, 1, 1, 1]\<rparr>,
                 fs_outputs = [\<lparr>stor = 2, tshape = [1, 1, 1, 1], tstrides = [1, 1, 1, 1]\<rparr>],
                 fs_detection = \<lparr>stor = 1, tshape = [0], tstrides = [1]\<rparr>\<rparr>"
    by code_simp
  have s2: "and_then (step_library ex_lib (module_list ex_state2 ! 1)
                 \<lparr>fs_heap = [[3], [], [4]],
                  fs_x = \<lparr>stor = 2, tshape = [1, 1, 1, 1], tstrides = [1, 1, 1, 1]\<rparr>,
                  fs_outputs = [\<lparr>stor = 2, tshape = [1, 1, 1, 1], tstrides = [1, 1, 1, 1]\<rparr>],
                  fs_detection = \<lparr>stor = 1, tshape = [0], tstrides = [1]\<rparr>\<rparr>)
              (\<lambda>st. Inr (st\<lparr>fs_outputs := fs_outputs st @ [fs_x st]\<rparr>)) = Inr ex_before"
    by code_simp
  have f1: "\<And>mdl st. forward_step ex_lib ex_conv mdl st =
              and_then (step_library ex_lib mdl st)
                (\<lambda>st. Inr (st\<lparr>fs_outputs := fs_outputs st @ [fs_x st]\<rparr>))"
    by (rule forward_step_type(1) [OF t1]) simp
  have f2: "\<And>mdl st. forward_step ex_lib ex_conv_bn mdl st =
              and_then (step_library ex_lib mdl st)
                (\<lambda>st. Inr (st\<lparr>fs_outputs := fs_outputs st @ [fs_x st]\<rparr>))"
    by (rule forward_step_type(1) [OF t2]) simp
  show ?thesis
    by (subst m) (simp only: forward_loop.simps f1 f2 s1 s2 and_then_Inr)
qed

lemma ex_step_shortcut:
  "forward_step ex_lib (ex_shortcut ''-2'') [ShortcutLayer 0] ex_before = Inr ex_after"
proof -
  have t: "getitem (ex_shortcut ''-2'') ''type'' = Inr ''shortcut''" by code_simp
  have "and_then (step_shortcut [ShortcutLayer 0] ex_before)
          (\<lambda>st. Inr (st\<lparr>fs_outputs := fs_outputs st @ [fs_x st]\<rparr>)) = Inr ex_after"
    by code_simp
  then show ?thesis by (simp only: forward_step_type(2) [OF t refl])
qed

text \<open>
  In \<open>[ex_net, ex_conv, ex_conv_bn, ex_shortcut ''-2'']\<close> on the input 3, the two layers
  before the shortcut give 4 and 5; the shortcut adds entry 0 of the history into the object
  that is entry 1, so that entries 1 and 2 are this object, of value 9, and entry 1 is no
  longer 5.
\<close>

theorem shortcut_in_place_witness:
  "contents (fs_heap ex_before) (fs_outputs ex_before ! (2 - 1)) =
     \<lparr>shape = [1, 1, 1, 1], data = [5]\<rparr> \<and>
   fs_outputs ex_after ! (2 - 1) = fs_x ex_before \<and>
   fs_outputs ex_after ! 2 = fs_x ex_before \<and>
   contents (fs_heap ex_after) (fs_outputs ex_after ! (2 - 1)) =
     \<lparr>shape = [1, 1, 1, 1], data = [5 + 4]\<rparr>"
proof -
  let ?bs = "[ex_conv, ex_conv_bn, ex_shortcut ''-2'']"
  have run: "forward_loop ex_lib (take 2 ?bs) (take 2 ex_modules_sc) (forward_init ex_in) =
               Inr ex_before"
    using ex_run_before by (simp add: ex_modules_sc_def ex_state2_def)
  have i: "2 < length ex_modules_sc" by (simp add: ex_modules_sc_def ex_state2_def)
  have ty: "getitem (?bs ! 2) ''type'' = Inr ''shortcut''" by code_simp
  have step: "forward_step ex_lib (?bs ! 2) (ex_modules_sc ! 2) ex_before = Inr ex_after"
    using ex_step_shortcut by (simp add: ex_modules_sc_def ex_state2_def)
  have later: "forward_loop ex_lib [] [] ex_after = Inr ex_after" by simp
  have sx: "std (fs_heap ex_before) (fs_x ex_before)" by (simp add: ex_before_def std_def)
  have m: "ex_modules_sc ! 2 = [ShortcutLayer 0]" by (simp add: ex_modules_sc_def ex_state2_def)
  have y: "ShortcutLayer_forward 0 (fs_outputs ex_before) = Inr (fs_outputs ex_before ! 0)"
    by code_simp
  have v: "\<lparr>shape = tshape (fs_x ex_before),
            data = map (\<lambda>ix. tget (fs_heap ex_before) (fs_x ex_before) ix
                          + expanded (contents (fs_heap ex_before) (fs_outputs ex_before ! 0)) ix)
                       (all_indices (tshape (fs_x ex_before)))\<rparr> =
           \<lparr>shape = [1, 1, 1, 1], data = [5 + 4]\<rparr>"
    by code_simp
  have before: "contents (fs_heap ex_before) (fs_outputs ex_before ! (2 - 1)) =
     \<lparr>shape = [1, 1, 1, 1], data = [5]\<rparr>"
    by code_simp
  from shortcut_in_place [OF run i ty step later] sx m y v before
  show ?thesis by auto
qed


section \<open>The detections of a forward pass\<close>

lemma agree_refl [simp]: "agree a h h"
  by (simp add: agree_def)

lemma agree_update_where:
  assumes "agree a h h1" "stor t = a"
  shows "agree a h (update_where h1 t P f)"
  using assms by (simp add: agree_def update_where_def scatter_def)

lemma agree_append:
  assumes "agree a h h1"
  shows "agree a h (h1 @ others)"
  using assms by (simp add: agree_def nth_append)

lemma agree_contiguous:
  assumes "agree a h h1"
  shows "agree a h (snd (contiguous h1 t))"
  using assms by (simp add: contiguous_def alloc_def agree_append)

lemma length_update_where [simp]: "length (update_where h t P f) = length h"
  by (simp add: update_where_def scatter_def)

lemma stor_contiguous:
  assumes "stor t < length h"
  shows "stor (fst (contiguous h t)) < length (snd (contiguous h t))"
  using assms by (simp add: contiguous_def alloc_def)

lemma length_contiguous: "length h \<le> length (snd (contiguous h t))"
  by (simp add: contiguous_def alloc_def)

lemma length_infer_size:
  assumes "infer_size dims n = Inr s"
  shows "length s = length dims"
  using assms by (auto simp: infer_size_def Let_def split: if_splits)

lemma view_InrE:
  assumes "view t dims = Inr t'"
  shows "stor t' = stor t \<and> length (tshape t') = length dims"
  using assms unfolding view_def
  by (elim and_then_InrE) (auto split: if_splits dest: length_infer_size)

lemma transpose12_InrE:
  assumes "transpose12 t = Inr t'"
  shows "stor t' = stor t \<and> length (tshape t') = length (tshape t)"
  using assms by (auto simp: transpose12_def swap12_def split: if_splits list.splits)

lemma DetectionLayer_forward_frame:
  assumes "DetectionLayer_forward l x h = Inr (x', h')"
  shows "agree (stor x) h h' \<and> length (tshape x') = 3 \<and>
         (stor x < length h \<longrightarrow> stor x' < length h')"
  using assms unfolding DetectionLayer_forward_def
  apply (elim and_then_InrE)
  apply (simp split: if_splits)
  apply (elim and_then_InrE)
  apply (simp add: Let_def split_def split: if_splits)
  apply (elim and_then_InrE)
  apply (simp add: Let_def split_def split: if_splits)
  apply (drule view_InrE transpose12_InrE)+
  apply (elim conjE)
  apply (intro conjI impI)
    apply (erule subst, intro agree_contiguous agree_update_where agree_refl, simp_all) [1]
   apply simp
  apply (erule subst, simp, rule stor_contiguous, simp)
  done

lemma contents_agree:
  assumes "agree a h h'" "stor t < length h" "stor t \<noteq> a"
  shows "contents h' t = contents h t"
  using assms by (simp add: agree_def contents_def tget_def)

lemma contents_append:
  assumes "stor t < length h"
  shows "contents (h @ others) t = contents h t"
  using assms by (simp add: contents_def tget_def nth_append)

lemma separate_init: "separate (forward_init v)"
  by (simp add: separate_def forward_init_def alloc_def)

lemma step_yolo_detection:
  assumes step: "step_yolo mdl st = Inr st1" and inv: "separate st"
  shows "separate st1 \<and>
         (\<exists>a nc na w x h. mdl = [DetectionLayer a nc na w] \<and>
            DetectionLayer_forward (DetectionLayer a nc na w) (fs_x st) (fs_heap st) = Inr (x, h) \<and>
            length (tshape x) = 3 \<and>
            cat1 [contents h x, contents (fs_heap st) (fs_detection st)] =
              Inr (contents (fs_heap st1) (fs_detection st1)))"
proof -
  from step obtain a nc na w x h v d h' where
    m: "mdl = [DetectionLayer a nc na w]" and
    fw: "DetectionLayer_forward (DetectionLayer a nc na w) (fs_x st) (fs_heap st) = Inr (x, h)"
    and ct: "cat1 [contents h x, contents h (fs_detection st)] = Inr v"
    and al: "alloc h v = (d, h')"
    and st1: "st1 = st\<lparr>fs_x := x, fs_heap := h', fs_detection := d\<rparr>"
    by (rule step_yolo_InrE)
  from DetectionLayer_forward_frame [OF fw] inv
  have ag: "agree (stor (fs_x st)) (fs_heap st) h" and l3: "length (tshape x) = 3"
    and sx: "stor x < length h"
    by (simp_all add: separate_def)
  from inv have d0: "contents h (fs_detection st) = contents (fs_heap st) (fs_detection st)"
    by (intro contents_agree [OF ag]) (simp_all add: separate_def)
  have full: "tensor_full v"
    by (rule cat1_prepend_full [OF ct]) (simp_all add: l3)
  from contents_alloc [OF full al]
  have c: "contents h' d = v" "stor d = length h" "h' = h @ [data v]" by blast+
  have cx: "contents h' x = contents h x" unfolding c(3) by (rule contents_append [OF sx])
  from sx c(2,3) have sep: "separate st1" by (simp add: separate_def st1)
  from ct c(1) d0 have "cat1 [contents h x, contents (fs_heap st) (fs_detection st)] =
      Inr (contents (fs_heap st1) (fs_detection st1))"
    by (simp add: st1)
  with sep m fw l3 show ?thesis by blast
qed

lemma step_other_detection:
  assumes step: "step_library lib mdl st = Inr st1 \<or> step_shortcut mdl st = Inr st1 \<or>
                 step_route mdl st = Inr st1 \<or> st1 = st"
      and inv: "separate st"
  shows "separate st1 \<and>
         contents (fs_heap st1) (fs_detection st1) = contents (fs_heap st) (fs_detection st)"
proof -
  consider (lib) "step_library lib mdl st = Inr st1" | (sc) "step_shortcut mdl st = Inr st1"
    | (rt) "step_route mdl st = Inr st1" | (other) "st1 = st"
    using step by blast
  then show ?thesis
  proof cases
    case lib
    from step_library_frame [OF lib] inv show ?thesis
      by (auto simp: separate_def contents_append)
  next
    case sc
    then obtain k y hh where hh: "iadd (fs_heap st) (fs_x st) y = Inr hh"
      and st1: "st1 = st\<lparr>fs_heap := hh\<rparr>"
      by (rule step_shortcut_InrE)
    from hh have ag: "agree (stor (fs_x st)) (fs_heap st) hh" and len: "length hh = length (fs_heap st)"
      by (auto simp: iadd_def agree_update_where split: if_splits)
    from inv have "contents hh (fs_detection st) = contents (fs_heap st) (fs_detection st)"
      by (intro contents_agree [OF ag]) (simp_all add: separate_def)
    with inv len show ?thesis by (simp add: st1 separate_def)
  next
    case rt
    from step_route_frame [OF rt] inv show ?thesis
      by (auto simp: separate_def contents_append)
  next
    case other
    with inv show ?thesis by simp
  qed
qed

lemma forward_step_detection:
  assumes step: "forward_step lib b mdl st = Inr st'" and inv: "separate st"
  shows "separate st' \<and>
         (if getitem b ''type'' = Inr ''yolo''
          then \<exists>a nc na w x h. mdl = [DetectionLayer a nc na w] \<and>
                 DetectionLayer_forward (DetectionLayer a nc na w) (fs_x st) (fs_heap st) =
                   Inr (x, h) \<and>
                 length (tshape x) = 3 \<and>
                 cat1 [contents h x, contents (fs_heap st) (fs_detection st)] =
                   Inr (contents (fs_heap st') (fs_detection st'))
          else contents (fs_heap st') (fs_detection st') =
                 contents (fs_heap st) (fs_detection st))"
proof -
  from step obtain ty st1 where ty: "getitem b ''type'' = Inr ty" and
    br: "(if ty = ''convolutional'' \<or> ty = ''upsample'' then step_library lib mdl st
      else if ty = ''shortcut'' then step_shortcut mdl st
      else if ty = ''route'' then step_route mdl st
      else if ty = ''yolo'' then step_yolo mdl st
      else Inr st) = Inr st1"
    and st': "st' = st1\<lparr>fs_outputs := fs_outputs st1 @ [fs_x st1]\<rparr>"
    by (rule forward_step_InrE)
  have eq: "separate st' = separate st1" "fs_x st' = fs_x st1" "fs_heap st' = fs_heap st1"
    "fs_detection st' = fs_detection st1"
    by (simp_all add: st' separate_def)
  show ?thesis
  proof (cases "ty = ''yolo''")
    case True
    with br have "step_yolo mdl st = Inr st1" by simp
    from step_yolo_detection [OF this inv] True ty show ?thesis by (simp add: eq)
  next
    case False
    with br have "step_library lib mdl st = Inr st1 \<or> step_shortcut mdl st = Inr st1 \<or>
                 step_route mdl st = Inr st1 \<or> st1 = st"
      by (metis sum.inject(2))
    from step_other_detection [OF this inv] False ty show ?thesis by (simp add: eq)
  qed
qed

lemma forward_loop_detection:
  "forward_loop lib bs ms st = Inr st' \<Longrightarrow> separate st \<Longrightarrow>
     foldl (\<lambda>acc y. and_then acc (\<lambda>d. cat1 [y, d]))
       (Inr (contents (fs_heap st) (fs_detection st))) (yolo_outputs lib bs ms st) =
       Inr (contents (fs_heap st') (fs_detection st')) \<and>
     (\<forall>y\<in>set (yolo_outputs lib bs ms st). tensor_full y \<and> length (shape y) = 3)"
proof (induction lib bs ms st rule: forward_loop.induct)
  case (1 lib bs st)
  then show ?case by simp
next
  case (2 lib mdl mdls st)
  then show ?case by simp
next
  case (3 lib b bs mdl mdls st)
  from 3(2) obtain s1 where s1: "forward_step lib b mdl st = Inr s1"
    and rest: "forward_loop lib bs mdls s1 = Inr st'"
    by (auto elim: and_then_InrE)
  note fs = forward_step_detection [OF s1 3(3)]
  then have inv1: "separate s1" by simp
  note ih = 3(1) [OF rest inv1]
  show ?case
  proof (cases "getitem b ''type'' = Inr ''yolo''")
    case True
    with fs obtain a nc na w x h where "mdl = [DetectionLayer a nc na w]"
      "DetectionLayer_forward (DetectionLayer a nc na w) (fs_x st) (fs_heap st) = Inr (x, h)"
      "length (tshape x) = 3"
      "cat1 [contents h x, contents (fs_heap st) (fs_detection st)] =
         Inr (contents (fs_heap s1) (fs_detection s1))"
      by auto
    with ih True s1 show ?thesis by simp
  next
    case False
    with fs have "contents (fs_heap s1) (fs_detection s1) =
                    contents (fs_heap st) (fs_detection st)" by simp
    with ih False s1 show ?thesis by simp
  qed
qed

lemma yolo_outputs_none:
  "list_all (\<lambda>b. getitem b ''type'' \<noteq> Inr ''yolo'') bs \<Longrightarrow> yolo_outputs lib bs ms st = []"
  by (induction lib bs ms st rule: forward_loop.induct) (simp_all split: sum.splits)

lemma forward_step_yolo:
  assumes "forward_step lib b mdl st = Inr st'" "getitem b ''type'' = Inr ''yolo''"
  shows "\<exists>a nc na w x h. mdl = [DetectionLayer a nc na w] \<and>
           DetectionLayer_forward (DetectionLayer a nc na w) (fs_x st) (fs_heap st) = Inr (x, h)"
proof -
  from assms have "and_then (step_yolo mdl st)
       (\<lambda>st. Inr (st\<lparr>fs_outputs := fs_outputs st @ [fs_x st]\<rparr>)) = Inr st'"
    by (simp add: forward_step_def)
  then obtain st1 where "step_yolo mdl st = Inr st1" by (auto elim: and_then_InrE)
  then show ?thesis by (elim step_yolo_InrE) blast
qed

lemma yolo_outputs_length:
  "forward_loop lib bs ms st = Inr st' \<Longrightarrow>
   length (yolo_outputs lib bs ms st) =
     length (filter (\<lambda>b. getitem b ''type'' = Inr ''yolo'') (take (length ms) bs))"
proof (induction lib bs ms st rule: forward_loop.induct)
  case (1 lib bs st)
  then show ?case by simp
next
  case (2 lib mdl mdls st)
  then show ?case by simp
next
  case (3 lib b bs mdl mdls st)
  from 3(2) obtain s1 where s1: "forward_step lib b mdl st = Inr s1"
    and rest: "forward_loop lib bs mdls s1 = Inr st'"
    by (auto elim: and_then_InrE)
  note ih = 3(1) [OF rest]
  show ?case
  proof (cases "getitem b ''type'' = Inr ''yolo''")
    case True
    from forward_step_yolo [OF s1 True] obtain a nc na w x h where
      "mdl = [DetectionLayer a nc na w]"
      "DetectionLayer_forward (DetectionLayer a nc na w) (fs_x st) (fs_heap st) = Inr (x, h)"
      by blast
    with ih s1 True show ?thesis by simp
  next
    case False
    with ih s1 show ?thesis by simp
  qed
qed

lemma all_indices_ex: "all_indices [1, 1, 6, 1, 1] =
    [[0, 0, 0, 0, 0], [0, 0, 1, 0, 0], [0, 0, 2, 0, 0], [0, 0, 3, 0, 0], [0, 0, 4, 0, 0],
     [0, 0, 5, 0, 0]]"
  by code_simp

lemma sigmoid_0: "sigmoid 0 = 1 / 2"
  by (simp add: sigmoid_def)

lemma ex_yolo_zero:
  fixes h :: heap and aw ah :: real
  assumes s: "s < length h" and z: "h ! s = [0, 0, 0, 0, 0, 0]"
  shows "DetectionLayer_forward (DetectionLayer \<lparr>shape = [1, 2], data = [aw, ah]\<rparr> 1 1 416)
           \<lparr>stor = s, tshape = [1, 6, 1, 1], tstrides = [6, 1, 1, 1]\<rparr> h =
         Inr (\<lparr>stor = s, tshape = [1, 1, 6], tstrides = [6, 1, 1]\<rparr>,
              h[s := [208, 208, aw, ah, 1 / 2, 1 / 2]])"
proof -
  let ?x = "\<lparr>stor = s, tshape = [1, 6, 1, 1], tstrides = [6, 1, 1, 1]\<rparr>"
  let ?anch = "\<lparr>shape = [1, 2], data = [aw, ah]\<rparr> :: real tensor"
  have sx: "std h ?x" using s z by (simp add: std_def)
  have shx: "tshape ?x = [1, 1 * (5 + 1), 1, 1]" by simp
  have an: "shape ?anch = [1, 2]" by simp
  have six: "(5::nat) + 1 = 6" by simp
  have vals: "map (\<lambda>ix. decoded ?anch (416 div int 1) (ix ! 1) (ix ! 2) (ix ! 3) (ix ! 4)
                     (tget h \<lparr>stor = stor ?x, tshape = [1, 1, 5 + 1, 1, 1],
                              tstrides = row_major [1, 1, 5 + 1, 1, 1]\<rparr> ix))
               (all_indices [1, 1, 5 + 1, 1, 1]) = [208, 208, aw, ah, 1 / 2, 1 / 2]"
    apply (simp only: six all_indices_ex list.map)
    using z apply (simp add: decoded_def tget_def offset_def sigmoid_0)
    done
  from DetectionLayer_forward_std [OF sx shx _ _ _ an, of 416] show ?thesis
    unfolding vals by simp
qed


lemma ex_create_yolo:
  "create_modules ex_init ex_blocks_yolo = Inr (ex_net, ex_modules_yolo)"
  by code_simp

lemma step_yolo_eq:
  assumes "DetectionLayer_forward (DetectionLayer a nc na w) (fs_x st) (fs_heap st) = Inr (x, h)"
    and "cat1 [contents h x, contents h (fs_detection st)] = Inr v"
  shows "step_yolo [DetectionLayer a nc na w] st =
           Inr (st\<lparr>fs_x := x, fs_heap := h @ [data v],
                    fs_detection := \<lparr>stor = length h, tshape = shape v,
                                      tstrides = row_major (shape v)\<rparr>\<rparr>)"
  using assms by (simp add: step_yolo_def alloc_def)


lemma ex_forward_yolo:
  "forward_state ex_lib_zero ex_darknet_yolo ex_in_zero = Inr ex_final \<and>
   yolo_outputs ex_lib_zero (tl (self_blocks ex_darknet_yolo))
     (self_module_list ex_darknet_yolo) (forward_init ex_in_zero) = [ex_first, ex_second]"
proof -
  let ?Y = "[208, 208, 10, 13, 1 / 2, 1 / 2] :: real list"
  let ?Z = "[208, 208, 16, 30, 1 / 2, 1 / 2] :: real list"
  let ?ZY = "[208, 208, 16, 30, 1 / 2, 1 / 2, 208, 208, 10, 13, 1 / 2, 1 / 2] :: real list"
  let ?X1 = "\<lparr>stor = 2, tshape = [1, 6, 1, 1], tstrides = [6, 1, 1, 1]\<rparr>"
  let ?X2 = "\<lparr>stor = 2, tshape = [1, 1, 6], tstrides = [6, 1, 1]\<rparr>"
  let ?X3 = "\<lparr>stor = 4, tshape = [1, 6, 1, 1], tstrides = [6, 1, 1, 1]\<rparr>"
  let ?X4 = "\<lparr>stor = 5, tshape = [1, 6, 1, 1], tstrides = [6, 1, 1, 1]\<rparr>"
  let ?X5 = "\<lparr>stor = 5, tshape = [1, 1, 6], tstrides = [6, 1, 1]\<rparr>"
  let ?D0 = "\<lparr>stor = 1, tshape = [0], tstrides = [1]\<rparr>"
  let ?D1 = "\<lparr>stor = 3, tshape = [1, 1, 6], tstrides = [6, 6, 1]\<rparr>"
  let ?D2 = "\<lparr>stor = 6, tshape = [1, 2, 6], tstrides = [12, 6, 1]\<rparr>"
  let ?s0 = "\<lparr>fs_heap = [[0, 0, 0], []],
              fs_x = \<lparr>stor = 0, tshape = [1, 3, 1, 1], tstrides = [3, 1, 1, 1]\<rparr>,
              fs_outputs = [], fs_detection = ?D0\<rparr>"
  let ?s1 = "\<lparr>fs_heap = [[0, 0, 0], [], [0, 0, 0, 0, 0, 0]], fs_x = ?X1,
              fs_outputs = [?X1], fs_detection = ?D0\<rparr>"
  let ?s2 = "\<lparr>fs_heap = [[0, 0, 0], [], ?Y, ?Y], fs_x = ?X2,
              fs_outputs = [?X1, ?X2], fs_detection = ?D1\<rparr>"
  let ?s3 = "\<lparr>fs_heap = [[0, 0, 0], [], ?Y, ?Y, ?Y], fs_x = ?X3,
              fs_outputs = [?X1, ?X2, ?X3], fs_detection = ?D1\<rparr>"
  let ?s4 = "\<lparr>fs_heap = [[0, 0, 0], [], ?Y, ?Y, ?Y, [0, 0, 0, 0, 0, 0]], fs_x = ?X4,
              fs_outputs = [?X1, ?X2, ?X3, ?X4], fs_detection = ?D1\<rparr>"
  let ?s5 = "\<lparr>fs_heap = [[0, 0, 0], [], ?Y, ?Y, ?Y, ?Z, ?ZY], fs_x = ?X5,
              fs_outputs = [?X1, ?X2, ?X3, ?X4, ?X5], fs_detection = ?D2\<rparr>"
  let ?m1 = "[Conv2d 3 6 1 1 0 (full [6, 3, 1, 1] 0) (Some (full [6] 0))]"
  let ?m4 = "[Conv2d 6 6 1 1 0 (full [6, 6, 1, 1] 0) (Some (full [6] 0))]"
  let ?app = "\<lambda>st. Inr (st\<lparr>fs_outputs := fs_outputs st @ [fs_x st]\<rparr>) :: error + fstate"
  have i0: "forward_init ex_in_zero = ?s0" by code_simp
  have t1: "getitem ex_conv6 ''type'' = Inr ''convolutional''" by code_simp
  have t2: "getitem (ex_yolo ''0'') ''type'' = Inr ''yolo''" by code_simp
  have t3: "getitem (ex_route ''-2'') ''type'' = Inr ''route''" by code_simp
  have t5: "getitem (ex_yolo ''1'') ''type'' = Inr ''yolo''" by code_simp
  have a1: "and_then (step_library ex_lib_zero ?m1 ?s0) ?app = Inr ?s1" by code_simp
  have a3: "and_then (step_route [RouteLayer [0]] ?s2) ?app = Inr ?s3" by code_simp
  have a4: "and_then (step_library ex_lib_zero ?m4 ?s3) ?app = Inr ?s4" by code_simp
  have d2: "DetectionLayer_forward (DetectionLayer \<lparr>shape = [1, 2], data = [10, 13]\<rparr> 1 1 416)
              (fs_x ?s1) (fs_heap ?s1) = Inr (?X2, [[0, 0, 0], [], ?Y])"
    using ex_yolo_zero [of 2 "[[0, 0, 0], [], [0, 0, 0, 0, 0, 0]]" 10 13] by simp
  have c2: "cat1 [contents [[0, 0, 0], [], ?Y] ?X2, contents [[0, 0, 0], [], ?Y] (fs_detection ?s1)] =
              Inr \<lparr>shape = [1, 1, 6], data = ?Y\<rparr>"
    by code_simp
  have e2: "?s1\<lparr>fs_x := ?X2, fs_heap := [[0, 0, 0], [], ?Y] @ [data \<lparr>shape = [1, 1, 6], data = ?Y\<rparr>],
                 fs_detection := \<lparr>stor = length [[0, 0, 0], [], ?Y],
                   tshape = shape \<lparr>shape = [1, 1, 6], data = ?Y\<rparr>,
                   tstrides = row_major (shape \<lparr>shape = [1, 1, 6], data = ?Y\<rparr>)\<rparr>\<rparr> =
            ?s2\<lparr>fs_outputs := [?X1]\<rparr>"
    by code_simp
  have a2: "and_then (step_yolo [DetectionLayer \<lparr>shape = [1, 2], data = [10, 13]\<rparr> 1 1 416] ?s1)
              ?app = Inr ?s2"
    unfolding step_yolo_eq [OF d2 c2] e2 by simp
  have d5: "DetectionLayer_forward (DetectionLayer \<lparr>shape = [1, 2], data = [16, 30]\<rparr> 1 1 416)
              (fs_x ?s4) (fs_heap ?s4) = Inr (?X5, [[0, 0, 0], [], ?Y, ?Y, ?Y, ?Z])"
    using ex_yolo_zero [of 5 "[[0, 0, 0], [], ?Y, ?Y, ?Y, [0, 0, 0, 0, 0, 0]]" 16 30] by simp
  have c5: "cat1 [contents [[0, 0, 0], [], ?Y, ?Y, ?Y, ?Z] ?X5,
                  contents [[0, 0, 0], [], ?Y, ?Y, ?Y, ?Z] (fs_detection ?s4)] =
              Inr \<lparr>shape = [1, 2, 6], data = ?ZY\<rparr>"
    by code_simp
  have e5: "?s4\<lparr>fs_x := ?X5,
                 fs_heap := [[0, 0, 0], [], ?Y, ?Y, ?Y, ?Z] @ [data \<lparr>shape = [1, 2, 6], data = ?ZY\<rparr>],
                 fs_detection := \<lparr>stor = length [[0, 0, 0], [], ?Y, ?Y, ?Y, ?Z],
                   tshape = shape \<lparr>shape = [1, 2, 6], data = ?ZY\<rparr>,
                   tstrides = row_major (shape \<lparr>shape = [1, 2, 6], data = ?ZY\<rparr>)\<rparr>\<rparr> =
            ?s5\<lparr>fs_outputs := [?X1, ?X2, ?X3, ?X4]\<rparr>"
    by code_simp
  have a5: "and_then (step_yolo [DetectionLayer \<lparr>shape = [1, 2], data = [16, 30]\<rparr> 1 1 416] ?s4)
              ?app = Inr ?s5"
    unfolding step_yolo_eq [OF d5 c5] e5 by simp
  have f1: "forward_step ex_lib_zero ex_conv6 ?m1 ?s0 = Inr ?s1"
    unfolding forward_step_type(1) [OF t1 disjI1 [OF refl]] by (rule a1)
  have f2: "forward_step ex_lib_zero (ex_yolo ''0'')
              [DetectionLayer \<lparr>shape = [1, 2], data = [10, 13]\<rparr> 1 1 416] ?s1 = Inr ?s2"
    unfolding forward_step_type(4) [OF t2 refl] by (rule a2)
  have f3: "forward_step ex_lib_zero (ex_route ''-2'') [RouteLayer [0]] ?s2 = Inr ?s3"
    unfolding forward_step_type(3) [OF t3 refl] by (rule a3)
  have f4: "forward_step ex_lib_zero ex_conv6 ?m4 ?s3 = Inr ?s4"
    unfolding forward_step_type(1) [OF t1 disjI1 [OF refl]] by (rule a4)
  have f5: "forward_step ex_lib_zero (ex_yolo ''1'')
              [DetectionLayer \<lparr>shape = [1, 2], data = [16, 30]\<rparr> 1 1 416] ?s4 = Inr ?s5"
    unfolding forward_step_type(4) [OF t5 refl] by (rule a5)
  have y1: "contents [[0, 0, 0], [], ?Y] ?X2 = ex_first" by code_simp
  have y2: "contents [[0, 0, 0], [], ?Y, ?Y, ?Y, ?Z] ?X5 = ex_second" by code_simp
  have ne: "getitem ex_conv6 ''type'' \<noteq> Inr ''yolo''" "getitem (ex_route ''-2'') ''type'' \<noteq> Inr ''yolo''"
    by (simp_all add: t1 t3)
  have run: "forward_loop ex_lib_zero (tl ex_blocks_yolo) ex_modules_yolo (forward_init ex_in_zero) =
          Inr ?s5"
    unfolding i0 ex_blocks_yolo_def ex_modules_yolo_def list.sel
    by (simp only: forward_loop.simps f1 f2 f3 f4 f5 and_then_Inr)
  have ys: "yolo_outputs ex_lib_zero (tl ex_blocks_yolo) ex_modules_yolo (forward_init ex_in_zero) =
          [ex_first, ex_second]"
    unfolding i0 ex_blocks_yolo_def ex_modules_yolo_def list.sel
    by (simp only: yolo_outputs.simps f1 f2 f3 f4 f5 sum.case t2 t5 ne if_True if_False
          list.case layer.case d2 d5 prod.case y1 y2 append.simps simp_thms)
  from run have "forward_state ex_lib_zero ex_darknet_yolo ex_in_zero = Inr ex_final"
    unfolding forward_state_def ex_darknet_yolo_def darknet.select_convs ex_final_def .
  moreover from ys have "yolo_outputs ex_lib_zero (tl (self_blocks ex_darknet_yolo))
     (self_module_list ex_darknet_yolo) (forward_init ex_in_zero) = [ex_first, ex_second]"
    unfolding ex_darknet_yolo_def darknet.select_convs .
  ultimately show ?thesis by (rule conjI)
qed

lemma ex_forward_value:
  "forward ex_lib_zero ex_darknet_yolo ex_in_zero =
     Inr \<lparr>shape = [1, 2, 6],
          data = [208, 208, 16, 30, 1 / 2, 1 / 2, 208, 208, 10, 13, 1 / 2, 1 / 2]\<rparr>"
proof -
  have c: "contents (fs_heap ex_final) (fs_detection ex_final) =
             \<lparr>shape = [1, 2, 6],
              data = [208, 208, 16, 30, 1 / 2, 1 / 2, 208, 208, 10, 13, 1 / 2, 1 / 2]\<rparr>"
    by code_simp
  show ?thesis
    unfolding forward_def ex_forward_yolo [THEN conjunct1] and_then_Inr c by (rule refl)
qed


text \<open>
  C5 (as amended). When the forward pass returns, its result is the concatenation along
  dimension 1 of the values that the detection layers returned, in the reverse of the
  order of the layers: the detections of the layer built last come first, since each
  new value is put before the ones collected so far. There is one such value for each
  block of type \<^verbatim>\<open>yolo\<close>. For a network without such a block the result is the empty
  tensor, of shape \<open>[0]\<close>.
\<close>

theorem forward_detections:
  assumes "forward lib self v = Inr r"
  shows "r = spec_concat (rev (yolo_outputs lib (tl (self_blocks self)) (self_module_list self)
                                 (forward_init v))) \<and>
         length (yolo_outputs lib (tl (self_blocks self)) (self_module_list self)
                   (forward_init v)) =
           length (filter (\<lambda>b. getitem b ''type'' = Inr ''yolo'')
                     (take (length (self_module_list self)) (tl (self_blocks self)))) \<and>
         (list_all (\<lambda>b. getitem b ''type'' \<noteq> Inr ''yolo'') (tl (self_blocks self)) \<longrightarrow>
            r = \<lparr>shape = [0], data = []\<rparr>)"
proof -
  let ?ys = "yolo_outputs lib (tl (self_blocks self)) (self_module_list self) (forward_init v)"
  from assms obtain st where
    run: "forward_loop lib (tl (self_blocks self)) (self_module_list self) (forward_init v) = Inr st"
    and r: "r = contents (fs_heap st) (fs_detection st)"
    unfolding forward_def forward_state_def by (auto elim: and_then_InrE)
  have d0: "contents (fs_heap (forward_init v)) (fs_detection (forward_init v)) =
              \<lparr>shape = [0], data = []\<rparr>"
    by (simp add: forward_init_def alloc_def contents_def all_indices.simps)
  from forward_loop_detection [OF run separate_init]
  have f: "foldl (\<lambda>acc y. and_then acc (\<lambda>d. cat1 [y, d])) (Inr \<lparr>shape = [0], data = []\<rparr>) ?ys =
             Inr r"
    and ys: "\<forall>y\<in>set ?ys. tensor_full y \<and> length (shape y) = 3"
    by (simp_all add: d0 r)
  have "stacked [] \<lparr>shape = [0], data = []\<rparr>" by (simp add: stacked_def)
  from foldl_stacked [OF f this ys] have "stacked (rev ?ys) r" by simp
  then have a: "r = spec_concat (rev ?ys)" by (rule stacked_spec_concat)
  have b: "list_all (\<lambda>b. getitem b ''type'' \<noteq> Inr ''yolo'') (tl (self_blocks self)) \<Longrightarrow>
            r = \<lparr>shape = [0], data = []\<rparr>"
  proof -
    assume "list_all (\<lambda>b. getitem b ''type'' \<noteq> Inr ''yolo'') (tl (self_blocks self))"
    from yolo_outputs_none [OF this] a show ?thesis by (simp add: spec_concat_def)
  qed
  from a b yolo_outputs_length [OF run] show ?thesis by blast
qed

text \<open>
  On the example the result holds the row of the second detection layer, then the row
  of the first; and the network of two convolutions returns the empty tensor.
\<close>

theorem forward_detections_witness:
  "\<lparr>shape = [1, 2, 6],
    data = [208, 208, 16, 30, 1 / 2, 1 / 2, 208, 208, 10, 13, 1 / 2, 1 / 2]\<rparr> =
     spec_concat (rev [ex_first, ex_second]) \<and>
   length [ex_first, ex_second] = 2 \<and>
   contents (fs_heap ex_before) (fs_detection ex_before) = \<lparr>shape = [0], data = []\<rparr>"
proof -
  let ?r = "\<lparr>shape = [1, 2, 6],
             data = [208, 208, 16, 30, 1 / 2, 1 / 2, 208, 208, 10, 13, 1 / 2, 1 / 2]\<rparr> :: real tensor"
  note f = ex_forward_value
  note ys = ex_forward_yolo [THEN conjunct2]
  from forward_detections [OF f] have a: "?r = spec_concat (rev [ex_first, ex_second])"
    unfolding ys by (rule conjunct1)
  have g: "forward ex_lib ex_darknet ex_in =
             Inr (contents (fs_heap ex_before) (fs_detection ex_before))"
    using ex_run_before by (simp add: forward_def forward_state_def ex_darknet_def)
  have n: "list_all (\<lambda>b. getitem b ''type'' \<noteq> Inr ''yolo'') (tl (self_blocks ex_darknet))"
    by code_simp
  from forward_detections [OF g] n
  have b: "contents (fs_heap ex_before) (fs_detection ex_before) = \<lparr>shape = [0], data = []\<rparr>"
    by blast
  from a b show ?thesis by simp
qed

text \<open>
  C5 as stated fails: on the example network, which is the one \<^verbatim>\<open>create_modules\<close>
  builds, the first detection layer returns the row of the anchor \<open>(10, 13)\<close> and the
  second the row of the anchor \<open>(16, 30)\<close>, and the forward pass returns the row of the
  second before the row of the first, not their concatenation in the order of the
  layers.
\<close>

theorem forward_detections_order:
  "create_modules ex_init (self_blocks ex_darknet_yolo) =
     Inr (ex_net, self_module_list ex_darknet_yolo) \<and>
   yolo_outputs ex_lib_zero (tl (self_blocks ex_darknet_yolo))
     (self_module_list ex_darknet_yolo) (forward_init ex_in_zero) = [ex_first, ex_second] \<and>
   forward ex_lib_zero ex_darknet_yolo ex_in_zero =
     Inr \<lparr>shape = [1, 2, 6],
          data = [208, 208, 16, 30, 1 / 2, 1 / 2, 208, 208, 10, 13, 1 / 2, 1 / 2]\<rparr> \<and>
   spec_concat [ex_first, ex_second] =
     \<lparr>shape = [1, 2, 6],
      data = [208, 208, 10, 13, 1 / 2, 1 / 2, 208, 208, 16, 30, 1 / 2, 1 / 2]\<rparr> \<and>
   forward ex_lib_zero ex_darknet_yolo ex_in_zero \<noteq> Inr (spec_concat [ex_first, ex_second])"
proof -
  let ?r = "\<lparr>shape = [1, 2, 6],
             data = [208, 208, 16, 30, 1 / 2, 1 / 2, 208, 208, 10, 13, 1 / 2, 1 / 2]\<rparr> :: real tensor"
  note f = ex_forward_value
  note ys = ex_forward_yolo [THEN conjunct2]
  have cr: "create_modules ex_init (self_blocks ex_darknet_yolo) =
              Inr (ex_net, self_module_list ex_darknet_yolo)"
    using ex_create_yolo by (simp add: ex_darknet_yolo_def)
  have sc: "spec_concat [ex_first, ex_second] =
     \<lparr>shape = [1, 2, 6],
      data = [208, 208, 10, 13, 1 / 2, 1 / 2, 208, 208, 16, 30, 1 / 2, 1 / 2]\<rparr>"
    by code_simp
  have ne: "forward ex_lib_zero ex_darknet_yolo ex_in_zero \<noteq> Inr (spec_concat [ex_first, ex_second])"
    unfolding f sc by simp
  from cr ys f sc ne show ?thesis by blast
qed

end
